theory Spec2Isabelle
  imports Main "HOL-Library.Sublist"
begin

section \<open>The HTTP firmware download client (http_dfu_client.c)\<close>

text \<open>
  A shallow embedding of \<^verbatim>\<open>subsys/net/lib/dfu_client/src/http_dfu_client.c\<close>.
  The C functions work on a \<^verbatim>\<open>struct dfu_client_object\<close> through a pointer and talk
  to the outside through the socket calls and through the event handler registered in
  the object. In the model
  \<^item> the object is a record that each function takes and returns;
  \<^item> every call to the outside is appended to a list of actions, and what the outside
    answers (the bytes \<^verbatim>\<open>recv\<close> delivers, the value the handler returns, what the
    resolver finds) is read from a record of answers, so that a statement quantified
    over that record holds for every behaviour of the network and of the handler;
  \<^item> a function whose C code can leave the defined behaviour of C (a call through a
    NULL handler, a string search in a response buffer without terminator, a walk past
    the resolver's results) returns \<open>None\<close> there.
  The C type \<^verbatim>\<open>int\<close> is modelled by \<open>int\<close>. Signed overflow and \<^verbatim>\<open>atoi\<close> of a
  number that no \<^verbatim>\<open>int\<close> holds are undefined in C; the statements below that depend
  on a number read from a response or on the range written into a request assume that
  these values lie in the range of an \<^verbatim>\<open>int\<close> (\<open>int_range\<close>). The functions take
  the object itself, so the \<^verbatim>\<open>dfu == NULL\<close> test that opens each C function has no
  counterpart. The event handler is taken to read the object, not to write it.
\<close>

subsection \<open>Configuration, object and events (dfu_client.h)\<close>

text \<open>The three Kconfig values the code uses; their definitions are not part of the sources.\<close>

record config =
  CONFIG_NRF_DFU_HTTP_MAX_RESPONSE_SIZE :: nat
  CONFIG_NRF_DFU_HTTP_MAX_REQUEST_SIZE :: nat
  CONFIG_NRF_DFU_HTTP_MAX_FRAGMENT_SIZE :: int

datatype dfu_client_status =
    DFU_CLIENT_STATUS_IDLE
  | DFU_CLIENT_STATUS_CONNECTED
  | DFU_CLIENT_STATUS_DOWNLOAD_INPROGRESS
  | DFU_CLIENT_STATUS_DOWNLOAD_COMPLETE
  | DFU_CLIENT_STATUS_HALTED
  | DFU_CLIENT_ERROR

datatype dfu_client_evt =
    DFU_CLIENT_EVT_ERROR
  | DFU_CLIENT_EVT_DOWNLOAD_FRAG
  | DFU_CLIENT_EVT_DOWNLOAD_DONE

text \<open>
  The error numbers the code names, and any other one. The handler's status argument is
  \<open>None\<close> where the code passes the literal 0.
\<close>

datatype errno = EAGAIN | EFAULT | ENOTCONN | ECONNRESET | OTHER_ERRNO nat

text \<open>
  \<open>resp_buf\<close> and \<open>req_buf\<close> hold the bytes in front of the zero padding of the C
  arrays; \<open>fragment\<close> is the offset in \<open>resp_buf\<close> the C pointer points to; \<open>host\<close>,
  \<open>resource\<close> and \<open>callback\<close> are \<open>None\<close> for a NULL pointer.
\<close>

record dfu_client_object =
  resp_buf :: string
  req_buf :: string
  fragment :: "nat option"
  fragment_size :: int
  fd :: int
  firmware_size :: int
  download_size :: int
  status :: dfu_client_status
  host :: "string option"
  resource :: "string option"
  callback :: "nat option"

subsection \<open>The outside: sockets, resolver, event handler\<close>

datatype address_family = AF_INET | AF_INET6 | AF_OTHER nat

datatype protocol = IPPROTO_TCP | IPPROTO_OTHER nat

record sockaddr =
  sa_family :: address_family
  sin_port :: nat
  sin_addr :: nat

datatype action =
    SysRecv int nat bool
  | SysSend int string int
  | SysClose int
  | SysGetaddrinfo string "string option" address_family protocol
  | SysSocket address_family protocol
  | SysConnect int sockaddr
  | SysFreeaddrinfo
  | Callback dfu_client_object dfu_client_evt "errno option"

text \<open>
  \<open>SysRecv fd size peek\<close> is a call of \<^verbatim>\<open>recv\<close> (\<open>peek\<close> for \<^verbatim>\<open>MSG_PEEK\<close>);
  \<open>SysSend fd buf len\<close> a call of \<^verbatim>\<open>send\<close> on the request buffer with content
  \<open>buf\<close> and the length \<open>len\<close> asked for; \<open>Callback dfu evt st\<close> a call of the
  event handler, with the object as the handler sees it.
\<close>

datatype recv_result = RecvErr errno | RecvData string

text \<open>
  The answers of the outside during one call of a public function: what the
  \<^verbatim>\<open>recv\<close> with \<^verbatim>\<open>MSG_PEEK\<close> of \<^verbatim>\<open>dfu_client_process\<close> finds, what the
  \<^verbatim>\<open>recv\<close> of \<^verbatim>\<open>rxdata_flush\<close> finds, what the handler returns for a
  fragment and for the completion, what \<^verbatim>\<open>getaddrinfo\<close> returns (its return code and
  the array of results, empty for NULL), and what \<^verbatim>\<open>socket\<close>, \<^verbatim>\<open>connect\<close> and
  \<^verbatim>\<open>send\<close> return.
\<close>

record env =
  recv_peek :: recv_result
  recv_flush :: recv_result
  frag_ret :: int
  done_ret :: int
  getaddrinfo_ret :: "string \<Rightarrow> string option \<Rightarrow> address_family \<Rightarrow> protocol \<Rightarrow> int \<times> sockaddr list"
  socket_ret :: "address_family \<Rightarrow> protocol \<Rightarrow> int"
  connect_ret :: "int \<Rightarrow> sockaddr \<Rightarrow> int"
  send_ret :: int

subsection \<open>The C library: strstr, atoi, snprintf\<close>

definition NUL :: char where
  "NUL = CHR 0x00"

definition CRLF :: string where
  "CRLF = [CHR 0x0D, CHR 0x0A]"

text \<open>The string a \<^verbatim>\<open>char *\<close> to the start of a buffer denotes: the bytes before the first zero.\<close>

definition c_str :: "string \<Rightarrow> string" where
  "c_str buf = takeWhile (\<lambda>c. c \<noteq> NUL) buf"

text \<open>\<^verbatim>\<open>strstr\<close>: the offset of the first occurrence of the pattern, \<open>None\<close> for NULL.\<close>

fun strstr :: "string \<Rightarrow> string \<Rightarrow> nat option" where
  "strstr [] pat = (if pat = [] then Some 0 else None)"
| "strstr (c # cs) pat =
     (if prefix pat (c # cs) then Some 0 else map_option Suc (strstr cs pat))"

definition isspace :: "char \<Rightarrow> bool" where
  "isspace c = (c \<in> set [CHR '' '', CHR 0x09, CHR 0x0A, CHR 0x0B, CHR 0x0C, CHR 0x0D])"

definition isdigit :: "char \<Rightarrow> bool" where
  "isdigit c = (c \<in> set ''0123456789'')"

definition digit_val :: "char \<Rightarrow> int" where
  "digit_val c = int (of_char c) - 48"

fun atoi_digits :: "int \<Rightarrow> string \<Rightarrow> int" where
  "atoi_digits acc [] = acc"
| "atoi_digits acc (c # cs) =
     (if isdigit c then atoi_digits (acc * 10 + digit_val c) cs else acc)"

text \<open>
  \<^verbatim>\<open>atoi\<close>: white space, an optional sign, then the longest run of digits; 0 when
  there is none.
\<close>

definition atoi :: "string \<Rightarrow> int" where
  "atoi s =
     (case dropWhile isspace s of
        [] \<Rightarrow> 0
      | c # cs \<Rightarrow>
          if c = CHR ''-'' then - atoi_digits 0 cs
          else if c = CHR ''+'' then atoi_digits 0 cs
          else atoi_digits 0 (c # cs))"

definition digit_char :: "nat \<Rightarrow> char" where
  "digit_char d = ''0123456789'' ! d"

fun dec :: "nat \<Rightarrow> string" where
  "dec n = (if n < 10 then [digit_char n] else dec (n div 10) @ [digit_char (n mod 10)])"

declare dec.simps [simp del]

text \<open>The conversion \<^verbatim>\<open>%d\<close>.\<close>

definition print_int :: "int \<Rightarrow> string" where
  "print_int i = (if i < 0 then CHR ''-'' # dec (nat (- i)) else dec (nat i))"

text \<open>\<^verbatim>\<open>REQUEST_TEMPLATE\<close> with its four arguments filled in.\<close>

definition REQUEST_TEMPLATE :: "string \<Rightarrow> string \<Rightarrow> int \<Rightarrow> int \<Rightarrow> string" where
  "REQUEST_TEMPLATE res hst range_start range_end =
     ''GET '' @ res @ '' HTTP/1.1'' @ CRLF @
     ''Host: '' @ hst @ CRLF @
     ''Connection: keep-alive'' @ CRLF @
     ''Range: bytes='' @ print_int range_start @ ''-'' @ print_int range_end @ CRLF @ CRLF"

text \<open>
  \<^verbatim>\<open>snprintf(buf, n, ...)\<close> into a zeroed buffer: at most \<open>n - 1\<close> characters
  are stored, and the value returned is the length of the whole formatted text, also
  when it was cut.
\<close>

definition snprintf :: "nat \<Rightarrow> string \<Rightarrow> string \<times> int" where
  "snprintf n text = (take (n - 1) text, int (length text))"

subsection \<open>httpc_connect\<close>

text \<open>
  The loop of lines 61-79. The C code steps through the resolver's results with
  \<^verbatim>\<open>addr++\<close>, which never yields NULL: the loop is left only by the \<^verbatim>\<open>break\<close>
  after a successful \<^verbatim>\<open>connect\<close>, and a walk past the last result is outside the
  defined behaviour of C (\<open>None\<close>). The result is the last return code and the calls made.
\<close>

fun httpc_connect_loop ::
  "env \<Rightarrow> int \<Rightarrow> address_family \<Rightarrow> int \<Rightarrow> sockaddr list \<Rightarrow> (int \<times> action list) option" where
  "httpc_connect_loop e fd' family rc [] = None"
| "httpc_connect_loop e fd' family rc (remoteaddr # addrs) =
     (if sa_family remoteaddr = family then
        (let remoteaddr' = remoteaddr\<lparr>sin_port := 80\<rparr>;
             rc' = connect_ret e fd' remoteaddr'
         in if rc' = 0 then Some (rc', [SysConnect fd' remoteaddr'])
            else map_option (\<lambda>(r, tr). (r, SysConnect fd' remoteaddr' # tr))
                   (httpc_connect_loop e fd' family rc' addrs))
      else httpc_connect_loop e fd' family rc addrs)"

definition httpc_connect ::
  "env \<Rightarrow> string option \<Rightarrow> string option \<Rightarrow> address_family \<Rightarrow> protocol \<Rightarrow>
     (int \<times> action list) option" where
  "httpc_connect e hst port family proto =
     (case hst of
        None \<Rightarrow> Some (- 1, [])
      | Some h \<Rightarrow>
          (let (rc, addrinf) = getaddrinfo_ret e h port family proto;
               tr0 = [SysGetaddrinfo h port family proto]
           in if rc < 0 \<or> addrinf = [] then Some (- 1, tr0)
              else
                (let fd' = socket_ret e family proto;
                     tr1 = tr0 @ [SysSocket family proto]
                 in case (if fd' \<ge> 0 then httpc_connect_loop e fd' family rc addrinf
                          else Some (rc, [])) of
                      None \<Rightarrow> None
                    | Some (rc', tr2) \<Rightarrow>
                        if rc' < 0
                        then Some (- 1, tr1 @ tr2 @ [SysFreeaddrinfo, SysClose fd'])
                        else Some (fd', tr1 @ tr2 @ [SysFreeaddrinfo]))))"

subsection \<open>rxdata_flush and fragment_request\<close>

definition rxdata_flush ::
  "config \<Rightarrow> env \<Rightarrow> dfu_client_object \<Rightarrow> dfu_client_object \<times> action list" where
  "rxdata_flush cfg e dfu =
     (if host dfu = None \<or> callback dfu = None \<or> status dfu = DFU_CLIENT_STATUS_IDLE
      then (dfu, [])
      else
        (let tr0 = [SysRecv (fd dfu) (CONFIG_NRF_DFU_HTTP_MAX_RESPONSE_SIZE cfg) False];
             tr1 = (case recv_flush e of
                      RecvErr en \<Rightarrow>
                        if en = EAGAIN then []
                        else [Callback dfu DFU_CLIENT_EVT_ERROR (Some en)]
                    | RecvData bytes \<Rightarrow> [])
         in (dfu\<lparr>resp_buf := []\<rparr>, tr0 @ tr1)))"

definition fragment_request ::
  "config \<Rightarrow> env \<Rightarrow> dfu_client_object \<Rightarrow> bool \<Rightarrow> bool \<Rightarrow>
     (int \<times> dfu_client_object \<times> action list) option" where
  "fragment_request cfg e dfu flush connnection_close =
     (if host dfu = None \<or> callback dfu = None \<or> resource dfu = None
      then Some (- 1, dfu, [])
      else
        (let (dfu1, tr1) = (if flush then rxdata_flush cfg e dfu else (dfu, []))
         in case (if connnection_close
                  then map_option (\<lambda>(fd', tr). (fd', SysClose (fd dfu1) # tr))
                         (httpc_connect e (host dfu1) None AF_INET IPPROTO_TCP)
                  else Some (fd dfu1, [])) of
              None \<Rightarrow> None
            | Some (fd', tr2) \<Rightarrow>
                (let dfu2 = dfu1\<lparr>fd := fd'\<rparr> in
                 if connnection_close \<and> fd' < 0
                 then Some (- 1, dfu2,
                        tr1 @ tr2 @ [Callback dfu2 DFU_CLIENT_EVT_ERROR (Some ECONNRESET)])
                 else
                   (let (buf, request_len) =
                          snprintf (CONFIG_NRF_DFU_HTTP_MAX_REQUEST_SIZE cfg)
                            (REQUEST_TEMPLATE (the (resource dfu2)) (the (host dfu2))
                               (download_size dfu2)
                               (download_size dfu2 +
                                  CONFIG_NRF_DFU_HTTP_MAX_FRAGMENT_SIZE cfg - 1));
                        dfu3 = dfu2\<lparr>req_buf := buf\<rparr>
                    in if request_len > 0
                       then
                         (let dfu4 = dfu3\<lparr>status := DFU_CLIENT_STATUS_DOWNLOAD_INPROGRESS\<rparr>
                          in Some (send_ret e, dfu4,
                               tr1 @ tr2 @ [SysSend (fd dfu4) (req_buf dfu4) request_len]))
                       else Some (- 1, dfu3, tr1 @ tr2)))))"

subsection \<open>The public functions\<close>

definition dfu_client_init :: "dfu_client_object \<Rightarrow> int \<times> dfu_client_object" where
  "dfu_client_init dfu =
     (if host dfu = None \<or> callback dfu = None \<or> resource dfu = None then (- 1, dfu)
      else (0, dfu\<lparr>fd := - 1, status := DFU_CLIENT_STATUS_IDLE\<rparr>))"

definition dfu_client_connect ::
  "env \<Rightarrow> dfu_client_object \<Rightarrow> (int \<times> dfu_client_object \<times> action list) option" where
  "dfu_client_connect e dfu =
     (if host dfu = None \<or> callback dfu = None then Some (- 1, dfu, [])
      else if fd dfu \<noteq> - 1 \<and> status dfu = DFU_CLIENT_STATUS_CONNECTED then Some (0, dfu, [])
      else
        (case httpc_connect e (host dfu) None AF_INET IPPROTO_TCP of
           None \<Rightarrow> None
         | Some (fd', tr) \<Rightarrow>
             if fd' < 0 then Some (- 1, dfu, tr)
             else Some (0, dfu\<lparr>fd := fd', status := DFU_CLIENT_STATUS_CONNECTED\<rparr>, tr)))"

definition dfu_client_disconnect :: "dfu_client_object \<Rightarrow> dfu_client_object \<times> action list" where
  "dfu_client_disconnect dfu =
     (if fd dfu < 0 then (dfu, [])
      else (dfu\<lparr>fd := - 1, status := DFU_CLIENT_STATUS_IDLE\<rparr>, [SysClose (fd dfu)]))"

definition dfu_client_download ::
  "config \<Rightarrow> env \<Rightarrow> dfu_client_object \<Rightarrow> (int \<times> dfu_client_object \<times> action list) option" where
  "dfu_client_download cfg e dfu =
     (if fd dfu < 0 \<or> status dfu \<noteq> DFU_CLIENT_STATUS_CONNECTED then Some (- 1, dfu, [])
      else fragment_request cfg e (dfu\<lparr>firmware_size := - 1\<rparr>) False False)"

text \<open>
  Lines 246-279 of \<^verbatim>\<open>dfu_client_process\<close>: the total size after the slash of the
  \<^verbatim>\<open>Content-Range\<close> header (0 when there is no slash) and the payload size of the
  \<^verbatim>\<open>Content-Length\<close> header; \<open>None\<close> where the code returns to wait for a header.
\<close>

definition parse_headers :: "string \<Rightarrow> (int \<times> int) option" where
  "parse_headers buf =
     (case strstr buf ''Content-Range: bytes'' of
        None \<Rightarrow> None
      | Some i \<Rightarrow>
          (let content_range_header = drop (i + length ''Content-Range: bytes'') buf;
               total_size =
                 (case strstr content_range_header ''/'' of
                    None \<Rightarrow> 0
                  | Some j \<Rightarrow> atoi (drop (j + 1) content_range_header))
           in case strstr buf ''Content-Length: '' of
                None \<Rightarrow> None
              | Some k \<Rightarrow>
                  Some (total_size, atoi (drop (k + length ''Content-Length: '') buf))))"

text \<open>Lines 283-294: the total size is learned, or compared with the one known.\<close>

definition check_total_size ::
  "dfu_client_object \<Rightarrow> int \<Rightarrow> (dfu_client_object \<times> action list) option" where
  "check_total_size dfu total_size =
     (if total_size \<noteq> 0 then
        (if firmware_size dfu = - 1 then Some (dfu\<lparr>firmware_size := total_size\<rparr>, [])
         else if firmware_size dfu \<noteq> total_size then
           (let dfu' = dfu\<lparr>status := DFU_CLIENT_ERROR\<rparr>
            in case callback dfu' of
                 None \<Rightarrow> None
               | Some h \<Rightarrow> Some (dfu', [Callback dfu' DFU_CLIENT_EVT_ERROR (Some EFAULT)]))
         else Some (dfu, []))
      else Some (dfu, []))"

text \<open>Lines 313-322: is there a \<^verbatim>\<open>Connection: \<close> header with \<^verbatim>\<open>close\<close> after it?\<close>

definition connection_resume :: "string \<Rightarrow> bool" where
  "connection_resume buf =
     (case strstr buf ''Connection: '' of
        None \<Rightarrow> False
      | Some i \<Rightarrow> strstr (drop (i + length ''Connection: '') buf) ''close'' \<noteq> None)"

text \<open>
  Lines 324-347: the fragment at offset \<open>p_payload\<close> of the response buffer is handed to
  the event handler, whose answers decide how the download goes on.
\<close>

definition accept_fragment ::
  "config \<Rightarrow> env \<Rightarrow> dfu_client_object \<Rightarrow> nat \<Rightarrow> int \<Rightarrow>
     (dfu_client_object \<times> action list) option" where
  "accept_fragment cfg e dfu p_payload payload_size =
     (let resume = connection_resume (c_str (resp_buf dfu));
          dfu1 = dfu\<lparr>fragment := Some p_payload, fragment_size := payload_size\<rparr>
      in case callback dfu1 of
           None \<Rightarrow> None
         | Some h \<Rightarrow>
             (let tr1 = [Callback dfu1 DFU_CLIENT_EVT_DOWNLOAD_FRAG None]
              in if frag_ret e = 0 then
                   (let dfu2 = dfu1\<lparr>download_size := download_size dfu1 + payload_size\<rparr>
                    in if download_size dfu2 = firmware_size dfu2 then
                         (let dfu3 = dfu2\<lparr>status := DFU_CLIENT_STATUS_DOWNLOAD_COMPLETE\<rparr>;
                              tr2 = tr1 @ [Callback dfu3 DFU_CLIENT_EVT_DOWNLOAD_DONE None]
                          in if done_ret e \<noteq> 0 then
                               (let dfu4 = dfu3\<lparr>download_size :=
                                             download_size dfu3 - payload_size\<rparr>
                                in map_option (\<lambda>(r, dfu5, tr3). (dfu5, tr2 @ tr3))
                                     (fragment_request cfg e dfu4 True resume))
                             else
                               (let (dfu4, tr3) = rxdata_flush cfg e dfu3
                                in Some (dfu4, tr2 @ tr3)))
                       else map_option (\<lambda>(r, dfu3, tr3). (dfu3, tr1 @ tr3))
                              (fragment_request cfg e dfu2 True resume))
                 else Some (dfu1\<lparr>status := DFU_CLIENT_STATUS_HALTED\<rparr>, tr1)))"

text \<open>
  Lines 296-311, for a response of \<open>len\<close> bytes with the payload size parsed: the
  fragment is looked at only when it has the full size or ends the firmware, and only
  once all of its bytes are there.
\<close>

definition deliver_fragment ::
  "config \<Rightarrow> env \<Rightarrow> dfu_client_object \<Rightarrow> nat \<Rightarrow> int \<Rightarrow>
     (dfu_client_object \<times> action list) option" where
  "deliver_fragment cfg e dfu len payload_size =
     (if payload_size = CONFIG_NRF_DFU_HTTP_MAX_FRAGMENT_SIZE cfg \<or>
         download_size dfu + payload_size = firmware_size dfu
      then
        (case strstr (c_str (resp_buf dfu)) (CRLF @ CRLF) of
           None \<Rightarrow> Some (dfu, [])
         | Some i \<Rightarrow>
             (let p_payload = i + length (CRLF @ CRLF);
                  expected_payload_size = int len - int p_payload
              in if payload_size \<noteq> expected_payload_size then Some (dfu, [])
                 else accept_fragment cfg e dfu p_payload payload_size))
      else Some (dfu, []))"

text \<open>
  \<^verbatim>\<open>dfu_client_process\<close>. The response buffer is zeroed and \<^verbatim>\<open>recv\<close> copies at
  most its size into it; when the bytes fill it and none of them is zero the string
  searches run past its end (\<open>None\<close>).
\<close>

definition dfu_client_process ::
  "config \<Rightarrow> env \<Rightarrow> dfu_client_object \<Rightarrow> (dfu_client_object \<times> action list) option" where
  "dfu_client_process cfg e dfu =
     (if fd dfu < 0 \<or> status dfu \<noteq> DFU_CLIENT_STATUS_DOWNLOAD_INPROGRESS then Some (dfu, [])
      else
        (let bufsize = CONFIG_NRF_DFU_HTTP_MAX_RESPONSE_SIZE cfg;
             tr0 = [SysRecv (fd dfu) bufsize True]
         in case recv_peek e of
              RecvErr en \<Rightarrow>
                if en \<noteq> EAGAIN then
                  (let dfu' = dfu\<lparr>resp_buf := [], status := DFU_CLIENT_ERROR\<rparr>
                   in case callback dfu' of
                        None \<Rightarrow> None
                      | Some h \<Rightarrow>
                          Some (dfu', tr0 @ [Callback dfu' DFU_CLIENT_EVT_ERROR (Some ENOTCONN)]))
                else Some (dfu\<lparr>resp_buf := []\<rparr>, tr0)
            | RecvData bytes \<Rightarrow>
                (let data = take bufsize bytes;
                     len = length data
                 in if len = 0 then
                      (let dfu' = dfu\<lparr>resp_buf := [], status := DFU_CLIENT_ERROR\<rparr>
                       in case callback dfu' of
                            None \<Rightarrow> None
                          | Some h \<Rightarrow>
                              Some (dfu', tr0 @
                                [Callback dfu' DFU_CLIENT_EVT_ERROR (Some ECONNRESET)]))
                    else if len = bufsize \<and> NUL \<notin> set data then None
                    else
                      (let dfu1 = dfu\<lparr>resp_buf := data\<rparr>
                       in case parse_headers (c_str data) of
                            None \<Rightarrow> Some (dfu1, tr0)
                          | Some (total_size, payload_size) \<Rightarrow>
                              (case check_total_size dfu1 total_size of
                                 None \<Rightarrow> None
                               | Some (dfu2, tr1) \<Rightarrow>
                                   map_option (\<lambda>(dfu3, tr2). (dfu3, tr0 @ tr1 @ tr2))
                                     (deliver_fragment cfg e dfu2 len payload_size))))))"

subsection \<open>What a trace shows\<close>

datatype notification = FragmentDelivered int | DownloadDone | ErrorReported "errno option"

text \<open>The events the handler was given, a fragment with the size it had.\<close>

fun notifications :: "action list \<Rightarrow> notification list" where
  "notifications [] = []"
| "notifications (Callback dfu DFU_CLIENT_EVT_DOWNLOAD_FRAG st # tr) =
     FragmentDelivered (fragment_size dfu) # notifications tr"
| "notifications (Callback dfu DFU_CLIENT_EVT_DOWNLOAD_DONE st # tr) =
     DownloadDone # notifications tr"
| "notifications (Callback dfu DFU_CLIENT_EVT_ERROR st # tr) =
     ErrorReported st # notifications tr"
| "notifications (a # tr) = notifications tr"

text \<open>The requests handed to \<^verbatim>\<open>send\<close>: the socket and the bytes of the request buffer.\<close>

fun requests :: "action list \<Rightarrow> (int \<times> string) list" where
  "requests [] = []"
| "requests (SysSend s buf len # tr) = (s, take (nat len) buf) # requests tr"
| "requests (a # tr) = requests tr"

text \<open>
  The invariant of the data model: once the firmware size is known (it is not the
  value -1 that \<^verbatim>\<open>dfu_client_download\<close> stores for unknown), no more than it has
  been downloaded.
\<close>

definition size_invariant :: "dfu_client_object \<Rightarrow> bool" where
  "size_invariant dfu = (firmware_size dfu \<noteq> - 1 \<longrightarrow> download_size dfu \<le> firmware_size dfu)"

text \<open>
  The firmware size in force once a response with the parsed total has been looked at
  (lines 283-286: the total is taken when the size was unknown and the total is not 0),
  and the case of lines 287-292: a total that is not the size known.
\<close>

definition known_size :: "dfu_client_object \<Rightarrow> int \<Rightarrow> int" where
  "known_size dfu total_size =
     (if firmware_size dfu = - 1 \<and> total_size \<noteq> 0 then total_size else firmware_size dfu)"

definition size_mismatch :: "dfu_client_object \<Rightarrow> int \<Rightarrow> bool" where
  "size_mismatch dfu total_size =
     (total_size \<noteq> 0 \<and> firmware_size dfu \<noteq> - 1 \<and> firmware_size dfu \<noteq> total_size)"

text \<open>
  A response stays within the firmware for an object when the size in force is neither
  below what has been downloaded nor below that plus the declared payload.
\<close>

definition within_firmware :: "dfu_client_object \<Rightarrow> int \<Rightarrow> int \<Rightarrow> bool" where
  "within_firmware dfu total_size payload_size =
     (known_size dfu total_size \<noteq> - 1 \<longrightarrow>
        download_size dfu \<le> known_size dfu total_size \<and>
        download_size dfu + payload_size \<le> known_size dfu total_size)"

text \<open>
  The values of a C \<^verbatim>\<open>int\<close> of the target (32 bits). Inside this range the model
  and the C code compute the same: \<^verbatim>\<open>atoi\<close> returns the number written, sums and
  differences do not overflow and \<^verbatim>\<open>%d\<close> prints the value.
\<close>

definition INT_MAX :: int where
  "INT_MAX = 2147483647"

definition int_range :: "int \<Rightarrow> bool" where
  "int_range i = (- INT_MAX - 1 \<le> i \<and> i \<le> INT_MAX)"

text \<open>
  The range of a request that starts at \<open>range_start\<close> is computed within
  \<^verbatim>\<open>int\<close> (line 140: the start, the start plus the maximum fragment size, that
  minus 1).
\<close>

definition request_in_range :: "config \<Rightarrow> int \<Rightarrow> bool" where
  "request_in_range cfg range_start =
     (int_range range_start \<and>
      int_range (range_start + CONFIG_NRF_DFU_HTTP_MAX_FRAGMENT_SIZE cfg) \<and>
      int_range (range_start + CONFIG_NRF_DFU_HTTP_MAX_FRAGMENT_SIZE cfg - 1))"

subsection \<open>A server that honours range requests\<close>

text \<open>
  The other side of the wire protocol, for the scenarios: a response with status 206,
  the headers \<^verbatim>\<open>Content-Range: bytes first-last/total\<close> and \<^verbatim>\<open>Content-Length\<close>,
  \<^verbatim>\<open>Connection: close\<close> when asked for, a blank line and the payload.
\<close>

definition response_header :: "nat \<Rightarrow> nat \<Rightarrow> nat \<Rightarrow> nat \<Rightarrow> bool \<Rightarrow> string" where
  "response_header first_byte last_byte total_bytes len close =
     ''HTTP/1.1 206 Partial Content'' @ CRLF @
     ''Content-Range: bytes '' @ dec first_byte @ ''-'' @ dec last_byte @ ''/'' @
       dec total_bytes @ CRLF @
     ''Content-Length: '' @ dec len @ CRLF @
     (if close then ''Connection: close'' @ CRLF else []) @
     CRLF"

definition partial_content :: "nat \<Rightarrow> nat \<Rightarrow> nat \<Rightarrow> bool \<Rightarrow> string \<Rightarrow> string" where
  "partial_content first_byte last_byte total_bytes close payload =
     response_header first_byte last_byte total_bytes (length payload) close @ payload"

text \<open>The answer to a request for the bytes \<open>first_byte\<close> to \<open>last_byte\<close> of a firmware.\<close>

definition serve_range :: "string \<Rightarrow> nat \<Rightarrow> nat \<Rightarrow> string" where
  "serve_range fw first_byte last_byte =
     (let last_sent = min last_byte (length fw - 1)
      in partial_content first_byte last_sent (length fw) False
           (take (last_sent + 1 - first_byte) (drop first_byte fw)))"

text \<open>A server that reads the range from the request text.\<close>

definition range_server :: "string \<Rightarrow> string \<Rightarrow> string" where
  "range_server fw req =
     (case strstr req ''Range: bytes='' of
        None \<Rightarrow> []
      | Some i \<Rightarrow>
          (let range = drop (i + length ''Range: bytes='') req
           in case strstr range ''-'' of
                None \<Rightarrow> []
              | Some j \<Rightarrow>
                  serve_range fw (nat (atoi range)) (nat (atoi (drop (j + 1) range)))))"

text \<open>
  The bytes waiting on the connection after a list of actions: a \<^verbatim>\<open>recv\<close> without
  \<^verbatim>\<open>MSG_PEEK\<close> takes bytes away, a \<^verbatim>\<open>close\<close> drops them, and the server answers
  each request sent.
\<close>

fun wire :: "(string \<Rightarrow> string) \<Rightarrow> string \<Rightarrow> action list \<Rightarrow> string" where
  "wire srv rx [] = rx"
| "wire srv rx (SysRecv s n peek # tr) = wire srv (if peek then rx else drop n rx) tr"
| "wire srv rx (SysSend s buf len # tr) = wire srv (rx @ srv (take (nat len) buf)) tr"
| "wire srv rx (SysClose s # tr) = wire srv [] tr"
| "wire srv rx (a # tr) = wire srv rx tr"

definition arrived :: "string \<Rightarrow> recv_result" where
  "arrived rx = (if rx = [] then RecvErr EAGAIN else RecvData rx)"

text \<open>
  \<open>n\<close> calls of \<^verbatim>\<open>dfu_client_process\<close> in a row, each finding the bytes that wait
  on the connection: the object and the actions of each call.
\<close>

fun session ::
  "config \<Rightarrow> (string \<Rightarrow> string) \<Rightarrow> env \<Rightarrow> nat \<Rightarrow> string \<Rightarrow> dfu_client_object \<Rightarrow>
     (dfu_client_object \<times> action list) list option" where
  "session cfg srv e 0 rx dfu = Some []"
| "session cfg srv e (Suc n) rx dfu =
     (case dfu_client_process cfg (e\<lparr>recv_peek := arrived rx, recv_flush := arrived rx\<rparr>) dfu of
        None \<Rightarrow> None
      | Some (dfu', tr) \<Rightarrow>
          map_option ((#) (dfu', tr)) (session cfg srv e n (wire srv rx tr) dfu'))"

text \<open>\<^verbatim>\<open>dfu_client_download\<close>, then \<open>n\<close> calls of \<^verbatim>\<open>dfu_client_process\<close>.\<close>

definition download_session ::
  "config \<Rightarrow> (string \<Rightarrow> string) \<Rightarrow> env \<Rightarrow> nat \<Rightarrow> dfu_client_object \<Rightarrow>
     (dfu_client_object \<times> action list) list option" where
  "download_session cfg srv e n dfu =
     (case dfu_client_download cfg e dfu of
        None \<Rightarrow> None
      | Some (r, dfu', tr) \<Rightarrow> session cfg srv e n (wire srv [] tr) dfu')"

subsection \<open>The fragments a download is expected to deliver\<close>

text \<open>
  The sizes the specification gives for a firmware of \<open>F\<close> bytes fetched in
  fragments of at most \<open>M\<close> bytes: \<open>F div M\<close> full fragments and then the remainder
  when there is one; their number is \<open>F / M\<close> rounded up.
\<close>

definition expected_fragments :: "nat \<Rightarrow> nat \<Rightarrow> nat list" where
  "expected_fragments F M = replicate (F div M) M @ (if F mod M = 0 then [] else [F mod M])"

definition fragment_count :: "nat \<Rightarrow> nat \<Rightarrow> nat" where
  "fragment_count F M = (F + M - 1) div M"

subsection \<open>Objects and answers for the examples\<close>

definition cfg_1k :: config where
  "cfg_1k = \<lparr>CONFIG_NRF_DFU_HTTP_MAX_RESPONSE_SIZE = 2048,
             CONFIG_NRF_DFU_HTTP_MAX_REQUEST_SIZE = 256,
             CONFIG_NRF_DFU_HTTP_MAX_FRAGMENT_SIZE = 1024\<rparr>"

definition dfu_connected :: dfu_client_object where
  "dfu_connected =
     \<lparr>resp_buf = [], req_buf = [], fragment = None, fragment_size = 0, fd = 3,
      firmware_size = 0, download_size = 0, status = DFU_CLIENT_STATUS_CONNECTED,
      host = Some ''example.com'', resource = Some ''/fw.bin'', callback = Some 1\<rparr>"

definition server_addr :: sockaddr where
  "server_addr = \<lparr>sa_family = AF_INET, sin_port = 0, sin_addr = 3232235777\<rparr>"

definition env_ok :: env where
  "env_ok =
     \<lparr>recv_peek = RecvErr EAGAIN, recv_flush = RecvErr EAGAIN, frag_ret = 0, done_ret = 0,
      getaddrinfo_ret = (\<lambda>h p f pr. (0, [server_addr])), socket_ret = (\<lambda>f pr. 4),
      connect_ret = (\<lambda>s a. 0), send_ret = 0\<rparr>"

definition cfg_128 :: config where
  "cfg_128 = \<lparr>CONFIG_NRF_DFU_HTTP_MAX_RESPONSE_SIZE = 2048,
             CONFIG_NRF_DFU_HTTP_MAX_REQUEST_SIZE = 128,
             CONFIG_NRF_DFU_HTTP_MAX_FRAGMENT_SIZE = 1024\<rparr>"

definition dfu_long_names :: dfu_client_object where
  "dfu_long_names =
     \<lparr>resp_buf = [], req_buf = [], fragment = None, fragment_size = 0, fd = 3,
      firmware_size = - 1, download_size = 0, status = DFU_CLIENT_STATUS_CONNECTED,
      host = Some ''firmware.updates.example.com'',
      resource = Some ''/releases/2019/nrf9160/app_update_v1.2.3.bin'', callback = Some 1\<rparr>"

definition dfu_idle :: dfu_client_object where
  "dfu_idle = dfu_connected\<lparr>fd := - 1, status := DFU_CLIENT_STATUS_IDLE\<rparr>"

text \<open>The calls \<^verbatim>\<open>httpc_connect\<close> makes under \<open>env_ok\<close>.\<close>

definition connect_actions :: "string \<Rightarrow> string option \<Rightarrow> action list" where
  "connect_actions h port =
     [SysGetaddrinfo h port AF_INET IPPROTO_TCP, SysSocket AF_INET IPPROTO_TCP,
      SysConnect 4 (server_addr\<lparr>sin_port := 80\<rparr>), SysFreeaddrinfo]"

definition dfu_fresh :: dfu_client_object where
  "dfu_fresh = dfu_connected\<lparr>firmware_size := - 1,
                 status := DFU_CLIENT_STATUS_DOWNLOAD_INPROGRESS\<rparr>"

text \<open>The server answers the first request with 500 bytes of a firmware of 2500.\<close>

definition env_short :: env where
  "env_short = env_ok\<lparr>recv_peek :=
                 RecvData (partial_content 0 499 2500 False (replicate 500 CHR ''x''))\<rparr>"

text \<open>A download of a firmware of 2500 bytes with \<open>n\<close> bytes done, and the answers
  of the outside when the bytes \<open>bytes\<close> wait on the connection.\<close>

definition dfu_progress :: "int \<Rightarrow> dfu_client_object" where
  "dfu_progress n = dfu_connected\<lparr>firmware_size := 2500, download_size := n,
                      status := DFU_CLIENT_STATUS_DOWNLOAD_INPROGRESS\<rparr>"

definition env_recv :: "string \<Rightarrow> env" where
  "env_recv bytes = env_ok\<lparr>recv_peek := RecvData bytes, recv_flush := RecvData bytes\<rparr>"

text \<open>A firmware of 2500 bytes.\<close>

definition firmware_2500 :: string where
  "firmware_2500 = replicate 2500 CHR ''x''"

text \<open>The actions of a call that only reads and reports errors.\<close>

fun background :: "action \<Rightarrow> bool" where
  "background (SysRecv s n peek) = True"
| "background (Callback dfu DFU_CLIENT_EVT_ERROR st) = True"
| "background a = False"

text \<open>
  The last 452 bytes of the firmware arrive and the handler rejects the completion; a
  full fragment arrives with \<^verbatim>\<open>Connection: close\<close> and the resolver fails.
\<close>

definition env_rejecting :: env where
  "env_rejecting =
     (env_recv (partial_content 2048 2499 2500 False (replicate 452 CHR ''x'')))\<lparr>done_ret := 1\<rparr>"

definition env_unreachable :: env where
  "env_unreachable =
     (env_recv (partial_content 1024 2047 2500 True (replicate 1024 CHR ''x'')))
       \<lparr>getaddrinfo_ret := (\<lambda>h p f pr. (- 1, []))\<rparr>"

section \<open>Properties\<close>

subsection \<open>httpc_connect\<close>

lemma httpc_connect_loop_port:
  "httpc_connect_loop e s family rc addrs = Some (r, tr) \<Longrightarrow> a \<in> set tr \<Longrightarrow>
     \<exists>ra. a = SysConnect s ra \<and> sin_port ra = 80"
proof (induction addrs arbitrary: rc r tr)
  case Nil
  then show ?case by simp
next
  case (Cons x xs)
  then show ?case
    by (auto simp: Let_def split: if_splits)
qed

lemma httpc_connect_loop_success:
  "httpc_connect_loop e s family rc addrs = Some (r, tr) \<Longrightarrow>
     r = 0 \<and> (\<exists>ra. SysConnect s ra \<in> set tr \<and> sin_port ra = 80 \<and> connect_ret e s ra = 0)"
proof (induction addrs arbitrary: rc r tr)
  case Nil
  then show ?case by simp
next
  case (Cons x xs)
  then show ?case
    by (fastforce simp: Let_def split: if_splits)
qed

lemma httpc_connect_actions:
  assumes "httpc_connect e hst port family proto = Some (r, tr)" and "a \<in> set tr"
  shows "(\<exists>h. a = SysGetaddrinfo h port family proto) \<or> a = SysSocket family proto \<or>
         a = SysFreeaddrinfo \<or> (\<exists>s. a = SysClose s) \<or>
         (\<exists>s ra. a = SysConnect s ra \<and> sin_port ra = 80)"
  using assms
  by (auto simp: httpc_connect_def Let_def split: option.splits prod.splits if_splits
      dest: httpc_connect_loop_port)

lemma httpc_connect_established:
  assumes "httpc_connect e hst port family proto = Some (r, tr)" and "0 \<le> r"
  shows "\<exists>ra. SysConnect r ra \<in> set tr \<and> sin_port ra = 80 \<and> connect_ret e r ra = 0"
  using assms
  by (auto simp: httpc_connect_def Let_def split: option.splits prod.splits if_splits
      dest!: httpc_connect_loop_success)

lemma rxdata_flush_actions:
  "rxdata_flush cfg e dfu = (dfu', tr) \<Longrightarrow> a \<in> set tr \<Longrightarrow>
     (\<exists>s n. a = SysRecv s n False) \<or> (\<exists>d st. a = Callback d DFU_CLIENT_EVT_ERROR st)"
  by (auto simp: rxdata_flush_def Let_def split: if_splits recv_result.splits)

lemma fragment_request_cases:
  assumes "fragment_request cfg e dfu flush cl = Some (r, dfu', tr)"
  shows "(r = - 1 \<and> dfu' = dfu \<and> tr = [] \<and>
            (host dfu = None \<or> callback dfu = None \<or> resource dfu = None)) \<or>
         (\<exists>dfu1 tr1 s trc.
            (if flush then rxdata_flush cfg e dfu else (dfu, [])) = (dfu1, tr1) \<and> cl \<and>
            httpc_connect e (host dfu1) None AF_INET IPPROTO_TCP = Some (s, trc) \<and> s < 0 \<and>
            r = - 1 \<and> dfu' = dfu1\<lparr>fd := s\<rparr> \<and>
            tr = tr1 @ SysClose (fd dfu1) # trc @
                   [Callback dfu' DFU_CLIENT_EVT_ERROR (Some ECONNRESET)]) \<or>
         (\<exists>dfu1 tr1 s tr2 hst res.
            (if flush then rxdata_flush cfg e dfu else (dfu, [])) = (dfu1, tr1) \<and>
            (if cl then \<exists>trc. httpc_connect e (host dfu1) None AF_INET IPPROTO_TCP = Some (s, trc) \<and>
                          0 \<le> s \<and> tr2 = SysClose (fd dfu1) # trc
             else s = fd dfu1 \<and> tr2 = []) \<and>
            host dfu = Some hst \<and> resource dfu = Some res \<and>
            r = send_ret e \<and>
            dfu' = dfu1\<lparr>fd := s,
                     req_buf := take (CONFIG_NRF_DFU_HTTP_MAX_REQUEST_SIZE cfg - 1)
                       (REQUEST_TEMPLATE res hst (download_size dfu)
                          (download_size dfu + CONFIG_NRF_DFU_HTTP_MAX_FRAGMENT_SIZE cfg - 1)),
                     status := DFU_CLIENT_STATUS_DOWNLOAD_INPROGRESS\<rparr> \<and>
            tr = tr1 @ tr2 @
                   [SysSend s (req_buf dfu')
                      (int (length (REQUEST_TEMPLATE res hst (download_size dfu)
                          (download_size dfu + CONFIG_NRF_DFU_HTTP_MAX_FRAGMENT_SIZE cfg - 1))))])"
proof -
  obtain dfu1 tr1 where fl: "(if flush then rxdata_flush cfg e dfu else (dfu, [])) = (dfu1, tr1)"
    by (cases "if flush then rxdata_flush cfg e dfu else (dfu, [])") auto
  have same: "host dfu1 = host dfu" "resource dfu1 = resource dfu"
    "download_size dfu1 = download_size dfu"
    using fl by (auto simp: rxdata_flush_def Let_def split: if_splits)
  show ?thesis
  proof (cases "host dfu = None \<or> callback dfu = None \<or> resource dfu = None")
    case True
    then show ?thesis using assms by (auto simp: fragment_request_def)
  next
    case False
    then obtain hst res where hr: "host dfu = Some hst" "resource dfu = Some res"
      by auto
    have len: "0 < length (REQUEST_TEMPLATE res hst x y)" for x y
      by (simp add: REQUEST_TEMPLATE_def)
    show ?thesis
    proof (cases cl)
      case True
      then obtain s trc where c: "httpc_connect e (host dfu1) None AF_INET IPPROTO_TCP = Some (s, trc)"
        using assms False fl
        by (auto simp: fragment_request_def Let_def split: option.splits prod.splits if_splits)
      show ?thesis
        using assms False fl True c hr same len
        by (auto simp: fragment_request_def Let_def snprintf_def split: if_splits)
    next
      case nocl: False
      show ?thesis
        using assms False fl nocl hr same len
        by (auto simp: fragment_request_def Let_def snprintf_def split: if_splits)
    qed
  qed
qed

lemma fragment_request_actions:
  assumes "fragment_request cfg e dfu flush cl = Some (r, dfu', tr)" and "a \<in> set tr"
  shows "(\<exists>s n. a = SysRecv s n False) \<or> (\<exists>d st. a = Callback d DFU_CLIENT_EVT_ERROR st) \<or>
         (\<exists>s buf len. a = SysSend s buf len) \<or>
         (\<exists>h. a = SysGetaddrinfo h None AF_INET IPPROTO_TCP) \<or> a = SysSocket AF_INET IPPROTO_TCP \<or>
         a = SysFreeaddrinfo \<or> (\<exists>s. a = SysClose s) \<or>
         (\<exists>s ra. a = SysConnect s ra \<and> sin_port ra = 80)"
proof -
  have fl: "x \<in> set tr1 \<Longrightarrow>
      (\<exists>s n. x = SysRecv s n False) \<or> (\<exists>d st. x = Callback d DFU_CLIENT_EVT_ERROR st)"
    if "(if flush then rxdata_flush cfg e dfu else (dfu, [])) = (dfu1, tr1)" for x dfu1 tr1
    using that rxdata_flush_actions [of cfg e dfu dfu1 tr1] by (auto split: if_splits)
  have co: "x \<in> set trc \<Longrightarrow>
      (\<exists>h. x = SysGetaddrinfo h None AF_INET IPPROTO_TCP) \<or> x = SysSocket AF_INET IPPROTO_TCP \<or>
      x = SysFreeaddrinfo \<or> (\<exists>s. x = SysClose s) \<or>
      (\<exists>s ra. x = SysConnect s ra \<and> sin_port ra = 80)"
    if "httpc_connect e hst None AF_INET IPPROTO_TCP = Some (s, trc)" for x hst s trc
    using that httpc_connect_actions by blast
  from fragment_request_cases [OF assms(1)] show ?thesis
  proof (elim disjE exE conjE)
    assume "tr = []"
    then show ?thesis using assms(2) by simp
  next
    assume "tr = []"
    then show ?thesis using assms(2) by simp
  next
    assume "tr = []"
    then show ?thesis using assms(2) by simp
  next
    fix dfu1 tr1 s trc
    assume "(if flush then rxdata_flush cfg e dfu else (dfu, [])) = (dfu1, tr1)"
      "httpc_connect e (host dfu1) None AF_INET IPPROTO_TCP = Some (s, trc)"
      "tr = tr1 @ SysClose (fd dfu1) # trc @ [Callback dfu' DFU_CLIENT_EVT_ERROR (Some ECONNRESET)]"
    then show ?thesis
      using assms(2) fl [of dfu1 tr1 a] co [of "host dfu1" s trc a] by auto
  next
    fix dfu1 tr1 s tr2 hst res len
    assume a1: "(if flush then rxdata_flush cfg e dfu else (dfu, [])) = (dfu1, tr1)"
      and a2: "if cl then \<exists>trc. httpc_connect e (host dfu1) None AF_INET IPPROTO_TCP = Some (s, trc) \<and>
                          0 \<le> s \<and> tr2 = SysClose (fd dfu1) # trc
             else s = fd dfu1 \<and> tr2 = []"
      and a3: "tr = tr1 @ tr2 @ [SysSend s (req_buf dfu') len]"
    have "x \<in> set tr2 \<Longrightarrow>
      (\<exists>h. x = SysGetaddrinfo h None AF_INET IPPROTO_TCP) \<or> x = SysSocket AF_INET IPPROTO_TCP \<or>
      x = SysFreeaddrinfo \<or> (\<exists>s. x = SysClose s) \<or>
      (\<exists>s ra. x = SysConnect s ra \<and> sin_port ra = 80)" for x
      using a2 co [of "host dfu1" s _ x] by (auto split: if_splits)
    then show ?thesis
      using assms(2) a3 fl [OF a1, of a] by auto
  qed
qed

subsection \<open>C10: connections go to port 80\<close>

text \<open>
  C10. Whatever port \<^verbatim>\<open>httpc_connect\<close> is given, every \<^verbatim>\<open>connect\<close> it issues goes
  to port 80 (the port is handed to the resolver, and the port of each resolved address is
  overwritten before the call), and when it returns a connection, a \<^verbatim>\<open>connect\<close> to
  port 80 has succeeded on it. \<^verbatim>\<open>dfu_client_connect\<close> and \<^verbatim>\<open>fragment_request\<close> call
  it with a NULL port: every resolver call in their traces has the port \<open>None\<close>, and
  every \<^verbatim>\<open>connect\<close> goes to port 80.
\<close>

theorem httpc_connect_port_80:
  "(httpc_connect e hst port family proto = Some (r, tr) \<longrightarrow>
      (\<forall>s ra. SysConnect s ra \<in> set tr \<longrightarrow> sin_port ra = 80) \<and>
      (0 \<le> r \<longrightarrow> (\<exists>ra. SysConnect r ra \<in> set tr \<and> sin_port ra = 80 \<and> connect_ret e r ra = 0))) \<and>
   (dfu_client_connect e dfu = Some (r1, dfu1, tr1) \<longrightarrow>
      (\<forall>h p f pr. SysGetaddrinfo h p f pr \<in> set tr1 \<longrightarrow> p = None) \<and>
      (\<forall>s ra. SysConnect s ra \<in> set tr1 \<longrightarrow> sin_port ra = 80)) \<and>
   (fragment_request cfg e dfu flush cl = Some (r2, dfu2, tr2) \<longrightarrow>
      (\<forall>h p f pr. SysGetaddrinfo h p f pr \<in> set tr2 \<longrightarrow> p = None) \<and>
      (\<forall>s ra. SysConnect s ra \<in> set tr2 \<longrightarrow> sin_port ra = 80))"
proof (intro conjI impI allI)
  fix s ra
  assume "httpc_connect e hst port family proto = Some (r, tr)" "SysConnect s ra \<in> set tr"
  then show "sin_port ra = 80"
    using httpc_connect_actions by fastforce
next
  assume "httpc_connect e hst port family proto = Some (r, tr)" "0 \<le> r"
  then show "\<exists>ra. SysConnect r ra \<in> set tr \<and> sin_port ra = 80 \<and> connect_ret e r ra = 0"
    by (rule httpc_connect_established)
next
  fix h p f pr
  assume "dfu_client_connect e dfu = Some (r1, dfu1, tr1)" "SysGetaddrinfo h p f pr \<in> set tr1"
  then show "p = None"
    by (auto simp: dfu_client_connect_def split: if_splits option.splits prod.splits
        dest: httpc_connect_actions)
next
  fix s ra
  assume "dfu_client_connect e dfu = Some (r1, dfu1, tr1)" "SysConnect s ra \<in> set tr1"
  then show "sin_port ra = 80"
    by (auto simp: dfu_client_connect_def split: if_splits option.splits prod.splits
        dest: httpc_connect_actions)
next
  fix h p f pr
  assume "fragment_request cfg e dfu flush cl = Some (r2, dfu2, tr2)"
    "SysGetaddrinfo h p f pr \<in> set tr2"
  then show "p = None"
    using fragment_request_actions by fastforce
next
  fix s ra
  assume "fragment_request cfg e dfu flush cl = Some (r2, dfu2, tr2)" "SysConnect s ra \<in> set tr2"
  then show "sin_port ra = 80"
    using fragment_request_actions by fastforce
qed

theorem httpc_connect_port_80_witness:
  "httpc_connect env_ok (Some ''example.com'') (Some ''8080'') AF_INET IPPROTO_TCP =
     Some (4, connect_actions ''example.com'' (Some ''8080'')) \<and>
   dfu_client_connect env_ok dfu_idle =
     Some (0, dfu_idle\<lparr>fd := 4, status := DFU_CLIENT_STATUS_CONNECTED\<rparr>,
           connect_actions ''example.com'' None) \<and>
   fragment_request cfg_1k env_ok dfu_connected False True =
     Some (0,
       dfu_connected\<lparr>fd := 4,
         req_buf := REQUEST_TEMPLATE ''/fw.bin'' ''example.com'' 0 1023,
         status := DFU_CLIENT_STATUS_DOWNLOAD_INPROGRESS\<rparr>,
       SysClose 3 # connect_actions ''example.com'' None @
         [SysSend 4 (REQUEST_TEMPLATE ''/fw.bin'' ''example.com'' 0 1023) 88]) \<and>
   SysConnect 4 (server_addr\<lparr>sin_port := 80\<rparr>) \<in>
     set (connect_actions ''example.com'' (Some ''8080'')) \<and>
   (\<exists>ra. SysConnect 4 ra \<in> set (connect_actions ''example.com'' (Some ''8080'')) \<and>
      sin_port ra = 80 \<and> connect_ret env_ok 4 ra = 0) \<and>
   SysGetaddrinfo ''example.com'' None AF_INET IPPROTO_TCP \<in>
     set (connect_actions ''example.com'' None)"
proof -
  have 1: "httpc_connect env_ok (Some ''example.com'') port AF_INET IPPROTO_TCP =
     Some (4, connect_actions ''example.com'' port)" for port
    by (simp add: httpc_connect_def env_ok_def server_addr_def connect_actions_def)
  have 2: "dfu_client_connect env_ok dfu_idle =
     Some (0, dfu_idle\<lparr>fd := 4, status := DFU_CLIENT_STATUS_CONNECTED\<rparr>,
           connect_actions ''example.com'' None)"
    by (simp add: dfu_client_connect_def dfu_idle_def dfu_connected_def 1)
  have len: "length (REQUEST_TEMPLATE ''/fw.bin'' ''example.com'' 0 1023) = 88"
    by code_simp
  have 3: "fragment_request cfg_1k env_ok dfu_connected False True =
     Some (0,
       dfu_connected\<lparr>fd := 4,
         req_buf := REQUEST_TEMPLATE ''/fw.bin'' ''example.com'' 0 1023,
         status := DFU_CLIENT_STATUS_DOWNLOAD_INPROGRESS\<rparr>,
       SysClose 3 # connect_actions ''example.com'' None @
         [SysSend 4 (REQUEST_TEMPLATE ''/fw.bin'' ''example.com'' 0 1023) 88])"
    using len
    by (simp add: fragment_request_def dfu_connected_def 1 cfg_1k_def snprintf_def Let_def)
      (auto simp: env_ok_def)
  show ?thesis
    using 1 [of "Some ''8080''"] 2 3
      httpc_connect_port_80 [of env_ok "Some ''example.com''" "Some ''8080''" AF_INET IPPROTO_TCP
        4 "connect_actions ''example.com'' (Some ''8080'')" dfu_idle 0
        "dfu_idle\<lparr>fd := 4, status := DFU_CLIENT_STATUS_CONNECTED\<rparr>"
        "connect_actions ''example.com'' None"]
    by (simp add: connect_actions_def)
qed

subsection \<open>C9: connecting twice\<close>

text \<open>
  C9. For an object with host and handler (as \<^verbatim>\<open>dfu_client_init\<close> demands) that is in
  the state Connected with a connection handle, \<^verbatim>\<open>dfu_client_connect\<close> returns 0, makes
  no call to the outside and leaves every field as it is; a second call, under any
  answers of the outside, does the same.
\<close>

theorem connect_when_connected:
  assumes "host dfu \<noteq> None" and "callback dfu \<noteq> None"
    and "0 \<le> fd dfu" and "status dfu = DFU_CLIENT_STATUS_CONNECTED"
  shows "dfu_client_connect e dfu = Some (0, dfu, []) \<and>
         Option.bind (dfu_client_connect e dfu) (\<lambda>(r, dfu', tr). dfu_client_connect e' dfu') =
           Some (0, dfu, [])"
  using assms by (simp add: dfu_client_connect_def)

theorem connect_when_connected_witness:
  "host dfu_connected \<noteq> None \<and> callback dfu_connected \<noteq> None \<and> 0 \<le> fd dfu_connected \<and>
   status dfu_connected = DFU_CLIENT_STATUS_CONNECTED \<and>
   dfu_client_connect env_ok dfu_connected = Some (0, dfu_connected, []) \<and>
   Option.bind (dfu_client_connect env_ok dfu_connected)
     (\<lambda>(r, dfu', tr). dfu_client_connect env_ok dfu') = Some (0, dfu_connected, [])"
proof -
  have h: "host dfu_connected \<noteq> None" "callback dfu_connected \<noteq> None" "0 \<le> fd dfu_connected"
    "status dfu_connected = DFU_CLIENT_STATUS_CONNECTED"
    by (simp_all add: dfu_connected_def)
  show ?thesis
    using h connect_when_connected [OF h, of env_ok env_ok] by simp
qed

subsection \<open>C7: disconnecting\<close>

text \<open>
  C7, as amended. When the object holds a connection handle (\<open>fd\<close> is not negative),
  \<^verbatim>\<open>dfu_client_disconnect\<close> closes it, marks the handle absent and sets the status to
  Idle, whatever the status was; when it holds none, the call does nothing and the
  status stays what it was.
\<close>

theorem disconnect_with_handle:
  "(0 \<le> fd dfu \<longrightarrow>
      dfu_client_disconnect dfu =
        (dfu\<lparr>fd := - 1, status := DFU_CLIENT_STATUS_IDLE\<rparr>, [SysClose (fd dfu)])) \<and>
   (fd dfu < 0 \<longrightarrow> dfu_client_disconnect dfu = (dfu, []))"
  by (simp add: dfu_client_disconnect_def)

theorem disconnect_with_handle_witness:
  "0 \<le> fd dfu_connected \<and> fd dfu_idle < 0 \<and>
   dfu_client_disconnect dfu_connected = (dfu_idle, [SysClose 3]) \<and>
   dfu_client_disconnect dfu_idle = (dfu_idle, [])"
  using disconnect_with_handle [of dfu_connected] disconnect_with_handle [of dfu_idle]
  by (simp add: dfu_connected_def dfu_idle_def)

lemma fragment_request_plain:
  assumes "host dfu = Some hst" and "resource dfu = Some res" and "callback dfu = Some h"
  shows "fragment_request cfg e dfu False False =
     Some (send_ret e,
       dfu\<lparr>req_buf := take (CONFIG_NRF_DFU_HTTP_MAX_REQUEST_SIZE cfg - 1)
             (REQUEST_TEMPLATE res hst (download_size dfu)
                (download_size dfu + CONFIG_NRF_DFU_HTTP_MAX_FRAGMENT_SIZE cfg - 1)),
           status := DFU_CLIENT_STATUS_DOWNLOAD_INPROGRESS\<rparr>,
       [SysSend (fd dfu)
          (take (CONFIG_NRF_DFU_HTTP_MAX_REQUEST_SIZE cfg - 1)
             (REQUEST_TEMPLATE res hst (download_size dfu)
                (download_size dfu + CONFIG_NRF_DFU_HTTP_MAX_FRAGMENT_SIZE cfg - 1)))
          (int (length (REQUEST_TEMPLATE res hst (download_size dfu)
                (download_size dfu + CONFIG_NRF_DFU_HTTP_MAX_FRAGMENT_SIZE cfg - 1))))])"
  using assms by (simp add: fragment_request_def snprintf_def Let_def REQUEST_TEMPLATE_def)

lemma length_request_long:
  "length (REQUEST_TEMPLATE ''/releases/2019/nrf9160/app_update_v1.2.3.bin''
     ''firmware.updates.example.com'' 0 1023) = 142"
  by code_simp

subsection \<open>C8: a request longer than the request buffer\<close>

text \<open>
  C8. The claim says that a request that does not fit the request buffer is not sent and
  an error is returned. \<^verbatim>\<open>snprintf\<close> returns the length of the whole text, which is
  positive, so the test \<^verbatim>\<open>request_len > 0\<close> never fails: with a buffer of 128 bytes
  and a request of 142, the first 127 bytes are stored, the status becomes download in
  progress and \<^verbatim>\<open>send\<close> is called for 142 bytes; the function returns what
  \<^verbatim>\<open>send\<close> returns.
\<close>

theorem long_request_is_sent:
  "fragment_request cfg_128 env_ok dfu_long_names False False =
     Some (0,
       dfu_long_names\<lparr>req_buf := take 127
             (REQUEST_TEMPLATE ''/releases/2019/nrf9160/app_update_v1.2.3.bin''
                ''firmware.updates.example.com'' 0 1023),
           status := DFU_CLIENT_STATUS_DOWNLOAD_INPROGRESS\<rparr>,
       [SysSend 3
          (take 127 (REQUEST_TEMPLATE ''/releases/2019/nrf9160/app_update_v1.2.3.bin''
                ''firmware.updates.example.com'' 0 1023)) 142]) \<and>
   CONFIG_NRF_DFU_HTTP_MAX_REQUEST_SIZE cfg_128 <
     length (REQUEST_TEMPLATE ''/releases/2019/nrf9160/app_update_v1.2.3.bin''
                ''firmware.updates.example.com'' 0 1023)"
proof -
  have "host dfu_long_names = Some ''firmware.updates.example.com''"
    "resource dfu_long_names = Some ''/releases/2019/nrf9160/app_update_v1.2.3.bin''"
    "callback dfu_long_names = Some 1"
    by (simp_all add: dfu_long_names_def)
  from fragment_request_plain [OF this, of cfg_128 env_ok]
  have "fragment_request cfg_128 env_ok dfu_long_names False False =
     Some (0,
       dfu_long_names\<lparr>req_buf := take 127
             (REQUEST_TEMPLATE ''/releases/2019/nrf9160/app_update_v1.2.3.bin''
                ''firmware.updates.example.com'' 0 1023),
           status := DFU_CLIENT_STATUS_DOWNLOAD_INPROGRESS\<rparr>,
       [SysSend 3
          (take 127 (REQUEST_TEMPLATE ''/releases/2019/nrf9160/app_update_v1.2.3.bin''
                ''firmware.updates.example.com'' 0 1023)) 142])"
    by (simp add: length_request_long cfg_128_def env_ok_def dfu_long_names_def)
  moreover have "CONFIG_NRF_DFU_HTTP_MAX_REQUEST_SIZE cfg_128 <
     length (REQUEST_TEMPLATE ''/releases/2019/nrf9160/app_update_v1.2.3.bin''
                ''firmware.updates.example.com'' 0 1023)"
    by (simp add: length_request_long cfg_128_def)
  ultimately show ?thesis by (rule conjI)
qed

subsection \<open>Decimal numbers and string search\<close>

lemma digit_char_cases:
  assumes "d < 10"
  shows "isdigit (digit_char d) \<and> digit_val (digit_char d) = int d"
proof -
  from assms have "d = 0 \<or> d = 1 \<or> d = 2 \<or> d = 3 \<or> d = 4 \<or> d = 5 \<or> d = 6 \<or> d = 7 \<or>
      d = 8 \<or> d = 9"
    by arith
  then show ?thesis
    by (auto simp: isdigit_def digit_char_def digit_val_def)
qed

lemma dec_digits: "c \<in> set (dec n) \<Longrightarrow> isdigit c"
proof (induction n rule: dec.induct)
  case (1 n)
  show ?case
  proof (cases "n < 10")
    case True
    with "1.prems" show ?thesis
      by (simp add: dec.simps [of n] digit_char_cases)
  next
    case False
    with "1.prems" "1.IH" show ?thesis
      by (auto simp: dec.simps [of n] digit_char_cases)
  qed
qed

lemma dec_notin [simp]: "\<not> isdigit c \<Longrightarrow> c \<notin> set (dec n)"
  using dec_digits by blast

lemma not_isdigit [simp]:
  "\<not> isdigit CHR ''C''" "\<not> isdigit CHR ''/''" "\<not> isdigit (CHR 0x0D)" "\<not> isdigit NUL"
  "\<not> isdigit CHR ''-''"
  by (simp_all add: isdigit_def NUL_def)

lemma dec_not_Nil: "dec n \<noteq> []"
  by (simp add: dec.simps [of n])

lemma atoi_digits_append:
  "\<forall>c \<in> set xs. isdigit c \<Longrightarrow> atoi_digits acc (xs @ ys) = atoi_digits (atoi_digits acc xs) ys"
  by (induction xs arbitrary: acc) auto

lemma atoi_digits_dec: "atoi_digits acc (dec n) = acc * 10 ^ length (dec n) + int n"
proof (induction n arbitrary: acc rule: dec.induct)
  case (1 n)
  show ?case
  proof (cases "n < 10")
    case True
    then show ?thesis
      by (simp add: dec.simps [of n] digit_char_cases)
  next
    case False
    have "atoi_digits acc (dec n) =
            atoi_digits (atoi_digits acc (dec (n div 10))) [digit_char (n mod 10)]"
      using False by (simp add: dec.simps [of n] atoi_digits_append dec_digits)
    also have "\<dots> = (acc * 10 ^ length (dec (n div 10)) + int (n div 10)) * 10 + int (n mod 10)"
      using False by (simp add: "1.IH" digit_char_cases)
    also have "\<dots> = acc * 10 ^ length (dec n) + int n"
    proof -
      have "int n = int (n div 10) * 10 + int (n mod 10)"
        by (metis div_mult_mod_eq of_nat_add of_nat_mult of_nat_numeral)
      then show ?thesis
        using False by (simp add: dec.simps [of n] algebra_simps)
    qed
    finally show ?thesis .
  qed
qed

lemma atoi_dec:
  assumes "\<not> isdigit c"
  shows "atoi (dec n @ c # rest) = int n"
proof -
  obtain x xs where x: "dec n = x # xs"
    using dec_not_Nil [of n] by (cases "dec n") auto
  have "isdigit x"
    using dec_digits [of x n] x by simp
  then have nsp: "\<not> isspace x" "x \<noteq> CHR ''-''" "x \<noteq> CHR ''+''"
    by (auto simp: isdigit_def isspace_def)
  have "atoi (dec n @ c # rest) = atoi_digits 0 (dec n @ c # rest)"
    using nsp by (simp add: atoi_def x)
  also have "\<dots> = atoi_digits (atoi_digits 0 (dec n)) (c # rest)"
    by (simp add: atoi_digits_append dec_digits)
  also have "\<dots> = int n"
    using assms by (simp add: atoi_digits_dec)
  finally show ?thesis .
qed

lemma length_dec_le: "n < 10 ^ k \<Longrightarrow> 0 < k \<Longrightarrow> length (dec n) \<le> k"
proof (induction n arbitrary: k rule: dec.induct)
  case (1 n)
  show ?case
  proof (cases "n < 10")
    case True
    then show ?thesis using "1.prems" by (simp add: dec.simps [of n])
  next
    case False
    then obtain j where j: "k = Suc j"
      using "1.prems" by (cases k) auto
    have "0 < j"
      using False "1.prems" j by (cases j) auto
    moreover have "n div 10 < 10 ^ j"
      using "1.prems" j by (simp add: less_mult_imp_div_less)
    ultimately have "length (dec (n div 10)) \<le> j"
      using "1.IH" False by simp
    then show ?thesis
      using False j by (simp add: dec.simps [of n])
  qed
qed

lemma strstr_skip:
  "p \<notin> set xs \<Longrightarrow>
     strstr (xs @ ys) (p # ps) =
       (case strstr ys (p # ps) of None \<Rightarrow> None | Some k \<Rightarrow> Some (length xs + k))"
  by (induction xs) (auto split: option.splits)

lemma strstr_prefix: "prefix pat s \<Longrightarrow> strstr s pat = Some 0"
  by (cases s) auto

lemma strstr_occurs: "\<exists>i. strstr (a @ pat @ b) pat = Some i \<and> i \<le> length a"
proof (induction a)
  case Nil
  show ?case by (simp add: strstr_prefix)
next
  case (Cons x a)
  then show ?case by auto
qed

lemma c_str_append: "NUL \<notin> set xs \<Longrightarrow> c_str (xs @ ys) = xs @ c_str ys"
  by (induction xs) (auto simp: c_str_def)

lemma drop_length_append: "n = length xs \<Longrightarrow> drop n (xs @ ys) = ys"
  by simp

lemma drop_append_le: "n \<le> length xs \<Longrightarrow> drop n (xs @ ys) = drop n xs @ ys"
  by simp

lemma connection_resume_contains:
  assumes "buf = pre @ ''Connection: close'' @ post"
  shows "connection_resume buf"
proof -
  have buf: "buf = pre @ ''Connection: '' @ (''close'' @ post)"
    using assms by simp
  have buf': "buf = (pre @ ''Connection: '') @ (''close'' @ post)"
    using assms by simp
  obtain i where i: "strstr buf ''Connection: '' = Some i" "i \<le> length pre"
    using strstr_occurs [of pre "''Connection: ''" "''close'' @ post"] buf by auto
  have "drop (i + length ''Connection: '') buf =
          drop (i + length ''Connection: '') (pre @ ''Connection: '') @ ''close'' @ post"
    unfolding buf' using i(2) by (intro drop_append_le) simp
  then have "strstr (drop (i + length ''Connection: '') buf) ''close'' \<noteq> None"
    using strstr_occurs [of "drop (i + length ''Connection: '') (pre @ ''Connection: '')"
        "''close''" post]
    by auto
  then show ?thesis
    using i(1) by (simp add: connection_resume_def)
qed

subsection \<open>Reading the server's response\<close>

lemma header_no_NUL: "NUL \<notin> set (response_header a b F n cl)"
  by (simp add: response_header_def CRLF_def) (simp add: NUL_def)

lemma strstr_range:
  "strstr (response_header a b F n cl @ rest) ''Content-Range: bytes'' = Some 30"
  by (simp add: response_header_def CRLF_def)

lemma drop_range:
  "drop (30 + length ''Content-Range: bytes'') (response_header a b F n cl @ rest) =
     CHR '' '' # dec a @ CHR ''-'' # dec b @ CHR ''/'' # dec F @ CRLF @ ''Content-Length: '' @
       dec n @ CRLF @ (if cl then ''Connection: close'' @ CRLF else []) @ CRLF @ rest"
  by (simp add: response_header_def CRLF_def)

lemma strstr_slash:
  "strstr (CHR '' '' # dec a @ CHR ''-'' # dec b @ CHR ''/'' # rest) ''/'' =
     Some (length (dec a) + length (dec b) + 2)"
  by (simp add: strstr_skip)

lemma drop_slash:
  "drop (length (dec a) + length (dec b) + 2 + 1)
     (CHR '' '' # dec a @ CHR ''-'' # dec b @ CHR ''/'' # rest) = rest"
proof -
  let ?xs = "CHR '' '' # dec a @ CHR ''-'' # dec b @ [CHR ''/'']"
  have "drop (length (dec a) + length (dec b) + 2 + 1) (?xs @ rest) = rest"
    by (rule drop_length_append) simp
  then show ?thesis by simp
qed

lemma strstr_length:
  "strstr (response_header a b F n cl @ rest) ''Content-Length: '' =
     Some (length (dec a) + length (dec b) + length (dec F) + 55)"
  by (simp add: response_header_def CRLF_def strstr_skip)

lemma length_response_header:
  "length (response_header a b F n cl) =
     length (dec a) + length (dec b) + length (dec F) + length (dec n) +
       (if cl then 19 else 0) + 75"
  by (simp add: response_header_def CRLF_def)

lemma strstr_blank:
  "strstr (response_header a b F n cl @ rest) (CRLF @ CRLF) =
     Some (length (response_header a b F n cl) - 4)"
  by (simp add: response_header_def CRLF_def strstr_skip)

lemma parse_headers_response:
  "parse_headers (response_header a b F n cl @ rest) = Some (int F, int n)"
proof -
  have 1: "atoi (dec F @ CRLF @ ''Content-Length: '' @ dec n @ CRLF @
     (if cl then ''Connection: close'' @ CRLF else []) @ CRLF @ rest) = int F"
    by (simp add: CRLF_def atoi_dec)
  have 2: "drop (length (dec a) + length (dec b) + length (dec F) + 55 +
                 length ''Content-Length: '') (response_header a b F n cl @ rest) =
     dec n @ CRLF @ (if cl then ''Connection: close'' @ CRLF else []) @ CRLF @ rest"
  proof -
    let ?xs = "''HTTP/1.1 206 Partial Content'' @ CRLF @
     ''Content-Range: bytes '' @ dec a @ ''-'' @ dec b @ ''/'' @ dec F @ CRLF @
     ''Content-Length: ''"
    let ?ys = "dec n @ CRLF @ (if cl then ''Connection: close'' @ CRLF else []) @ CRLF @ rest"
    have "drop (length (dec a) + length (dec b) + length (dec F) + 55 +
                length ''Content-Length: '') (?xs @ ?ys) = ?ys"
      by (rule drop_length_append) (simp add: CRLF_def)
    moreover have "?xs @ ?ys = response_header a b F n cl @ rest"
      by (simp add: response_header_def)
    ultimately show ?thesis by (simp only:)
  qed
  have 3: "atoi (dec n @ CRLF @ (if cl then ''Connection: close'' @ CRLF else []) @ CRLF @ rest) =
     int n"
    by (simp add: CRLF_def atoi_dec)
  show ?thesis
    unfolding parse_headers_def
    by (simp only: strstr_range strstr_length drop_range strstr_slash drop_slash 1 2 3
        option.case Let_def)
qed

lemma connection_resume_close: "connection_resume (response_header a b F n True @ rest)"
  by (rule connection_resume_contains [where pre = "''HTTP/1.1 206 Partial Content'' @ CRLF @
     ''Content-Range: bytes '' @ dec a @ ''-'' @ dec b @ ''/'' @ dec F @ CRLF @
     ''Content-Length: '' @ dec n @ CRLF" and post = "CRLF @ CRLF @ rest"])
    (simp add: response_header_def)

lemma length_partial_content_le:
  assumes "a < 10 ^ 10" and "b < 10 ^ 10" and "F < 10 ^ 10" and "length payload < 10 ^ 10"
  shows "length (partial_content a b F cl payload) \<le> length payload + 134"
proof -
  have "length (dec a) \<le> 10" "length (dec b) \<le> 10" "length (dec F) \<le> 10"
    "length (dec (length payload)) \<le> 10"
    using assms by (auto intro: length_dec_le)
  then show ?thesis
    by (simp add: partial_content_def length_response_header)
qed

subsection \<open>The outcomes of a call\<close>

lemma check_total_size_result:
  assumes "check_total_size dfu total_size = Some (dfu2, tr)"
  shows "dfu2 = dfu\<lparr>firmware_size := known_size dfu total_size,
                   status := (if size_mismatch dfu total_size then DFU_CLIENT_ERROR
                              else status dfu)\<rparr> \<and>
         tr = (if size_mismatch dfu total_size
               then [Callback dfu2 DFU_CLIENT_EVT_ERROR (Some EFAULT)] else [])"
  using assms
  by (auto simp: check_total_size_def known_size_def size_mismatch_def Let_def
      split: if_splits option.splits)

lemma check_total_size_Some:
  assumes "callback dfu \<noteq> None"
  shows "\<exists>dfu2 tr. check_total_size dfu total_size = Some (dfu2, tr)"
  using assms by (auto simp: check_total_size_def Let_def)

lemma process_data:
  assumes "0 \<le> fd dfu" and "status dfu = DFU_CLIENT_STATUS_DOWNLOAD_INPROGRESS"
    and "recv_peek e = RecvData bytes"
    and "data = take (CONFIG_NRF_DFU_HTTP_MAX_RESPONSE_SIZE cfg) bytes"
    and "data \<noteq> []"
    and "length data < CONFIG_NRF_DFU_HTTP_MAX_RESPONSE_SIZE cfg \<or> NUL \<in> set data"
  shows "dfu_client_process cfg e dfu =
     (case parse_headers (c_str data) of
        None \<Rightarrow> Some (dfu\<lparr>resp_buf := data\<rparr>,
                  [SysRecv (fd dfu) (CONFIG_NRF_DFU_HTTP_MAX_RESPONSE_SIZE cfg) True])
      | Some (total_size, payload_size) \<Rightarrow>
          (case check_total_size (dfu\<lparr>resp_buf := data\<rparr>) total_size of
             None \<Rightarrow> None
           | Some (dfu2, tr1) \<Rightarrow>
               map_option
                 (\<lambda>(dfu3, tr2).
                    (dfu3, SysRecv (fd dfu) (CONFIG_NRF_DFU_HTTP_MAX_RESPONSE_SIZE cfg) True #
                             tr1 @ tr2))
                 (deliver_fragment cfg e dfu2 (length data) payload_size)))"
  using assms
  by (auto simp: dfu_client_process_def Let_def split: option.splits prod.splits)

lemma deliver_fragment_stall:
  assumes "payload_size \<noteq> CONFIG_NRF_DFU_HTTP_MAX_FRAGMENT_SIZE cfg"
    and "download_size dfu + payload_size \<noteq> firmware_size dfu"
  shows "deliver_fragment cfg e dfu len payload_size = Some (dfu, [])"
  using assms by (simp add: deliver_fragment_def)

lemma deliver_fragment_response:
  assumes "resp_buf dfu = partial_content a b F cl payload"
    and "payload_size = int (length payload)"
    and "payload_size = CONFIG_NRF_DFU_HTTP_MAX_FRAGMENT_SIZE cfg \<or>
         download_size dfu + payload_size = firmware_size dfu"
  shows "deliver_fragment cfg e dfu (length (partial_content a b F cl payload)) payload_size =
           accept_fragment cfg e dfu (length (response_header a b F (length payload) cl))
             payload_size"
proof -
  have "strstr (c_str (resp_buf dfu)) (CRLF @ CRLF) =
          Some (length (response_header a b F (length payload) cl) - 4)"
    by (simp only: assms(1) partial_content_def c_str_append [OF header_no_NUL] strstr_blank)
  moreover have "4 \<le> length (response_header a b F (length payload) cl)"
    by (simp add: length_response_header)
  ultimately obtain i where i: "strstr (c_str (resp_buf dfu)) (CRLF @ CRLF) = Some i"
    "i + length (CRLF @ CRLF) = length (response_header a b F (length payload) cl)"
    by (simp add: CRLF_def)
  have "int (length (partial_content a b F cl payload)) -
          int (length (response_header a b F (length payload) cl)) = int (length payload)"
    by (simp add: partial_content_def)
  then show ?thesis
    using assms(2,3) i by (simp add: deliver_fragment_def Let_def)
qed

lemma process_cases:
  assumes "dfu_client_process cfg e dfu = Some (dfu', tr)"
  shows "(dfu' = dfu \<and> tr = [] \<and>
            (fd dfu < 0 \<or> status dfu \<noteq> DFU_CLIENT_STATUS_DOWNLOAD_INPROGRESS)) \<or>
         (dfu' = dfu\<lparr>resp_buf := []\<rparr> \<and> recv_peek e = RecvErr EAGAIN \<and>
            tr = [SysRecv (fd dfu) (CONFIG_NRF_DFU_HTTP_MAX_RESPONSE_SIZE cfg) True]) \<or>
         (\<exists>en. dfu' = dfu\<lparr>resp_buf := [], status := DFU_CLIENT_ERROR\<rparr> \<and>
            tr = [SysRecv (fd dfu) (CONFIG_NRF_DFU_HTTP_MAX_RESPONSE_SIZE cfg) True,
                  Callback dfu' DFU_CLIENT_EVT_ERROR (Some en)]) \<or>
         (\<exists>bytes. recv_peek e = RecvData bytes \<and>
            parse_headers (c_str (take (CONFIG_NRF_DFU_HTTP_MAX_RESPONSE_SIZE cfg) bytes)) = None \<and>
            dfu' = dfu\<lparr>resp_buf := take (CONFIG_NRF_DFU_HTTP_MAX_RESPONSE_SIZE cfg) bytes\<rparr> \<and>
            tr = [SysRecv (fd dfu) (CONFIG_NRF_DFU_HTTP_MAX_RESPONSE_SIZE cfg) True]) \<or>
         (\<exists>bytes data total_size payload_size dfu2 tr1 tr2.
            0 \<le> fd dfu \<and> status dfu = DFU_CLIENT_STATUS_DOWNLOAD_INPROGRESS \<and>
            recv_peek e = RecvData bytes \<and>
            data = take (CONFIG_NRF_DFU_HTTP_MAX_RESPONSE_SIZE cfg) bytes \<and>
            parse_headers (c_str data) = Some (total_size, payload_size) \<and>
            check_total_size (dfu\<lparr>resp_buf := data\<rparr>) total_size = Some (dfu2, tr1) \<and>
            deliver_fragment cfg e dfu2 (length data) payload_size = Some (dfu', tr2) \<and>
            tr = SysRecv (fd dfu) (CONFIG_NRF_DFU_HTTP_MAX_RESPONSE_SIZE cfg) True # tr1 @ tr2)"
proof (cases "fd dfu < 0 \<or> status dfu \<noteq> DFU_CLIENT_STATUS_DOWNLOAD_INPROGRESS")
  case True
  then show ?thesis
    using assms by (auto simp: dfu_client_process_def)
next
  case False
  show ?thesis
  proof (cases "recv_peek e")
    case (RecvErr en)
    then show ?thesis
      using assms False
      by (auto simp: dfu_client_process_def Let_def split: if_splits option.splits)
  next
    case (RecvData bytes)
    show ?thesis
    proof (cases "take (CONFIG_NRF_DFU_HTTP_MAX_RESPONSE_SIZE cfg) bytes = []")
      case True
      then show ?thesis
        using assms False RecvData
        by (auto simp: dfu_client_process_def Let_def split: if_splits option.splits)
    next
      case nonempty: False
      have terminated: "length (take (CONFIG_NRF_DFU_HTTP_MAX_RESPONSE_SIZE cfg) bytes) <
                    CONFIG_NRF_DFU_HTTP_MAX_RESPONSE_SIZE cfg \<or>
                  NUL \<in> set (take (CONFIG_NRF_DFU_HTTP_MAX_RESPONSE_SIZE cfg) bytes)"
        using assms False RecvData nonempty
        by (auto simp: dfu_client_process_def Let_def split: if_splits)
      have inp: "0 \<le> fd dfu" "status dfu = DFU_CLIENT_STATUS_DOWNLOAD_INPROGRESS"
        using False by auto
      from assms process_data [OF inp RecvData refl nonempty terminated]
      show ?thesis
        using RecvData inp
        by (auto split: option.splits prod.splits)
    qed
  qed
qed

lemma deliver_fragment_cases:
  assumes "deliver_fragment cfg e dfu len payload_size = Some (dfu', tr)"
  shows "(dfu' = dfu \<and> tr = []) \<or>
         (\<exists>p. accept_fragment cfg e dfu p payload_size = Some (dfu', tr) \<and>
            (payload_size = CONFIG_NRF_DFU_HTTP_MAX_FRAGMENT_SIZE cfg \<or>
             download_size dfu + payload_size = firmware_size dfu))"
  using assms
  by (auto simp: deliver_fragment_def Let_def split: if_splits option.splits)

lemma accept_fragment_cases:
  assumes "accept_fragment cfg e dfu p payload_size = Some (dfu', tr)"
    and "dfu1 = dfu\<lparr>fragment := Some p, fragment_size := payload_size\<rparr>"
    and "dfu2 = dfu1\<lparr>download_size := download_size dfu + payload_size\<rparr>"
    and "dfu3 = dfu2\<lparr>status := DFU_CLIENT_STATUS_DOWNLOAD_COMPLETE\<rparr>"
    and "dfu4 = dfu3\<lparr>download_size := download_size dfu3 - payload_size\<rparr>"
  shows "callback dfu \<noteq> None \<and>
        ((frag_ret e \<noteq> 0 \<and> dfu' = dfu1\<lparr>status := DFU_CLIENT_STATUS_HALTED\<rparr> \<and>
            tr = [Callback dfu1 DFU_CLIENT_EVT_DOWNLOAD_FRAG None]) \<or>
         (frag_ret e = 0 \<and> download_size dfu + payload_size \<noteq> firmware_size dfu \<and>
            (\<exists>r tr3. fragment_request cfg e dfu2 True (connection_resume (c_str (resp_buf dfu))) =
                        Some (r, dfu', tr3) \<and>
                     tr = Callback dfu1 DFU_CLIENT_EVT_DOWNLOAD_FRAG None # tr3)) \<or>
         (frag_ret e = 0 \<and> download_size dfu + payload_size = firmware_size dfu \<and>
            done_ret e = 0 \<and>
            (\<exists>tr3. rxdata_flush cfg e dfu3 = (dfu', tr3) \<and>
                    tr = Callback dfu1 DFU_CLIENT_EVT_DOWNLOAD_FRAG None #
                         Callback dfu3 DFU_CLIENT_EVT_DOWNLOAD_DONE None # tr3)) \<or>
         (frag_ret e = 0 \<and> download_size dfu + payload_size = firmware_size dfu \<and>
            done_ret e \<noteq> 0 \<and>
            (\<exists>r tr3. fragment_request cfg e dfu4 True (connection_resume (c_str (resp_buf dfu))) =
                        Some (r, dfu', tr3) \<and>
                     tr = Callback dfu1 DFU_CLIENT_EVT_DOWNLOAD_FRAG None #
                          Callback dfu3 DFU_CLIENT_EVT_DOWNLOAD_DONE None # tr3)))"
proof (cases "callback dfu")
  case None
  then show ?thesis
    using assms(1) by (simp add: accept_fragment_def Let_def)
next
  case (Some h)
  show ?thesis
  proof (cases "frag_ret e = 0")
    case False
    then show ?thesis
      using assms Some by (auto simp: accept_fragment_def Let_def)
  next
    case accepted: True
    show ?thesis
    proof (cases "download_size dfu + payload_size = firmware_size dfu")
      case False
      then show ?thesis
        using assms Some accepted by (auto simp: accept_fragment_def Let_def)
    next
      case complete: True
      show ?thesis
      proof (cases "done_ret e = 0")
        case True
        then show ?thesis
          using assms Some accepted complete
          by (auto simp: accept_fragment_def Let_def split: prod.splits)
      next
        case False
        then show ?thesis
          using assms Some accepted complete
          by (auto simp: accept_fragment_def Let_def)
      qed
    qed
  qed
qed

lemma rxdata_flush_result:
  "rxdata_flush cfg e dfu = (dfu', tr) \<Longrightarrow>
     (dfu' = dfu \<or> dfu' = dfu\<lparr>resp_buf := []\<rparr>) \<and> requests tr = [] \<and>
     (\<forall>x \<in> set (notifications tr). \<exists>st. x = ErrorReported st)"
  by (auto simp: rxdata_flush_def Let_def split: if_splits recv_result.splits)

lemma notifications_append [simp]:
  "notifications (xs @ ys) = notifications xs @ notifications ys"
  by (induction xs rule: notifications.induct) auto

lemma requests_append [simp]: "requests (xs @ ys) = requests xs @ requests ys"
  by (induction xs rule: requests.induct) auto

subsection \<open>C5: a response of another length\<close>

lemma process_stall:
  assumes "0 \<le> fd dfu" and "status dfu = DFU_CLIENT_STATUS_DOWNLOAD_INPROGRESS"
    and "callback dfu \<noteq> None"
    and "recv_peek e = RecvData bytes"
    and "data = take (CONFIG_NRF_DFU_HTTP_MAX_RESPONSE_SIZE cfg) bytes"
    and "data \<noteq> []"
    and "length data < CONFIG_NRF_DFU_HTTP_MAX_RESPONSE_SIZE cfg \<or> NUL \<in> set data"
    and "parse_headers (c_str data) = Some (total_size, payload_size)"
    and "payload_size \<noteq> CONFIG_NRF_DFU_HTTP_MAX_FRAGMENT_SIZE cfg"
    and "download_size dfu + payload_size \<noteq> known_size dfu total_size"
    and "dfu' = dfu\<lparr>resp_buf := data, firmware_size := known_size dfu total_size,
                   status := (if size_mismatch dfu total_size then DFU_CLIENT_ERROR
                              else status dfu)\<rparr>"
  shows "dfu_client_process cfg e dfu =
           Some (dfu', SysRecv (fd dfu) (CONFIG_NRF_DFU_HTTP_MAX_RESPONSE_SIZE cfg) True #
                         (if size_mismatch dfu total_size
                          then [Callback dfu' DFU_CLIENT_EVT_ERROR (Some EFAULT)] else []))"
    and "dfu_client_process cfg e dfu' =
           Some (dfu', if size_mismatch dfu total_size then []
                       else [SysRecv (fd dfu) (CONFIG_NRF_DFU_HTTP_MAX_RESPONSE_SIZE cfg) True])"
proof -
  have first: "dfu_client_process cfg e d =
           Some (d\<lparr>resp_buf := data, firmware_size := known_size d total_size,
                   status := (if size_mismatch d total_size then DFU_CLIENT_ERROR
                              else status d)\<rparr>,
                 SysRecv (fd d) (CONFIG_NRF_DFU_HTTP_MAX_RESPONSE_SIZE cfg) True #
                   (if size_mismatch d total_size
                    then [Callback (d\<lparr>resp_buf := data,
                                      firmware_size := known_size d total_size,
                                      status := (if size_mismatch d total_size
                                                 then DFU_CLIENT_ERROR else status d)\<rparr>)
                                 DFU_CLIENT_EVT_ERROR (Some EFAULT)]
                    else []))"
    if h: "0 \<le> fd d" "status d = DFU_CLIENT_STATUS_DOWNLOAD_INPROGRESS" "callback d \<noteq> None"
      "download_size d + payload_size \<noteq> known_size d total_size"
    for d
  proof -
    obtain d2 tr1 where ct: "check_total_size (d\<lparr>resp_buf := data\<rparr>) total_size = Some (d2, tr1)"
      using check_total_size_Some [of "d\<lparr>resp_buf := data\<rparr>" total_size] h(3) by auto
    note res = check_total_size_result [OF ct]
    have same: "known_size (d\<lparr>resp_buf := data\<rparr>) total_size = known_size d total_size"
      "size_mismatch (d\<lparr>resp_buf := data\<rparr>) total_size = size_mismatch d total_size"
      by (simp_all add: known_size_def size_mismatch_def)
    have d2: "d2 = d\<lparr>resp_buf := data, firmware_size := known_size d total_size,
                     status := (if size_mismatch d total_size then DFU_CLIENT_ERROR
                                else status d)\<rparr>"
      using res by (simp add: same)
    have tr1: "tr1 = (if size_mismatch d total_size
                      then [Callback d2 DFU_CLIENT_EVT_ERROR (Some EFAULT)] else [])"
      using res by (simp add: same)
    have "download_size d2 + payload_size \<noteq> firmware_size d2"
      unfolding d2 using h(4) by simp
    then have dl: "deliver_fragment cfg e d2 (length data) payload_size = Some (d2, [])"
      using assms(9) by (intro deliver_fragment_stall)
    have pd: "dfu_client_process cfg e d =
        map_option
          (\<lambda>(dfu3, tr2).
             (dfu3, SysRecv (fd d) (CONFIG_NRF_DFU_HTTP_MAX_RESPONSE_SIZE cfg) True # tr1 @ tr2))
          (deliver_fragment cfg e d2 (length data) payload_size)"
      using process_data [OF h(1,2) assms(4,5,6,7)] assms(8) ct by simp
    show ?thesis
      unfolding d2 [symmetric] by (simp add: pd dl tr1)
  qed
  show "dfu_client_process cfg e dfu =
           Some (dfu', SysRecv (fd dfu) (CONFIG_NRF_DFU_HTTP_MAX_RESPONSE_SIZE cfg) True #
                         (if size_mismatch dfu total_size
                          then [Callback dfu' DFU_CLIENT_EVT_ERROR (Some EFAULT)] else []))"
    unfolding assms(11) by (rule first [OF assms(1,2,3,10)])
  show "dfu_client_process cfg e dfu' =
           Some (dfu', if size_mismatch dfu total_size then []
                       else [SysRecv (fd dfu) (CONFIG_NRF_DFU_HTTP_MAX_RESPONSE_SIZE cfg) True])"
  proof (cases "size_mismatch dfu total_size")
    case True
    then have "status dfu' = DFU_CLIENT_ERROR"
      unfolding assms(11) by simp
    then show ?thesis
      using True by (simp add: dfu_client_process_def)
  next
    case False
    have st: "0 \<le> fd dfu'" "status dfu' = DFU_CLIENT_STATUS_DOWNLOAD_INPROGRESS"
      "callback dfu' \<noteq> None"
      unfolding assms(11) using assms(1,2,3) False by simp_all
    have fs: "fd dfu' = fd dfu"
      unfolding assms(11) by simp
    have k': "known_size dfu' total_size = known_size dfu total_size"
      unfolding assms(11) by (simp add: known_size_def)
    have m': "\<not> size_mismatch dfu' total_size"
      using False unfolding assms(11) by (auto simp: known_size_def size_mismatch_def)
    have dl': "download_size dfu' + payload_size \<noteq> known_size dfu' total_size"
      unfolding k' unfolding assms(11) using assms(10) by simp
    have "dfu_client_process cfg e dfu' =
            Some (dfu'\<lparr>resp_buf := data, firmware_size := known_size dfu total_size,
                        status := status dfu'\<rparr>,
                  [SysRecv (fd dfu') (CONFIG_NRF_DFU_HTTP_MAX_RESPONSE_SIZE cfg) True])"
      using first [OF st dl'] m' by (simp add: k')
    moreover have "dfu'\<lparr>resp_buf := data, firmware_size := known_size dfu total_size,
                        status := status dfu'\<rparr> = dfu'"
      unfolding assms(11) by simp
    ultimately show ?thesis
      using False by (simp only: fs if_False)
  qed
qed

text \<open>
  C5, as amended. Let the response found by \<^verbatim>\<open>dfu_client_process\<close> declare a
  \<^verbatim>\<open>Content-Length\<close> that is neither the maximum fragment size nor the firmware
  size in force (the known one, or the total of this response when none was known)
  minus \<open>download_size\<close>, the numbers of the response and the sum of \<open>download_size\<close>
  and the declared length being in the range of an \<^verbatim>\<open>int\<close>. Then the call delivers no
  fragment, sends no request and leaves \<open>download_size\<close> as it is. The total of the
  response is still taken in: an unknown \<open>firmware_size\<close> becomes that total, and a total
  that differs from the known size sets the status to error and reports the error to the
  handler; otherwise status and \<open>firmware_size\<close> stay. A further call on the same data
  leaves the object as the first call left it and again neither delivers nor sends.
\<close>

theorem other_length_stalls:
  assumes "0 \<le> fd dfu" and "status dfu = DFU_CLIENT_STATUS_DOWNLOAD_INPROGRESS"
    and "callback dfu \<noteq> None"
    and "recv_peek e = RecvData bytes"
    and "data = take (CONFIG_NRF_DFU_HTTP_MAX_RESPONSE_SIZE cfg) bytes"
    and "data \<noteq> []"
    and "length data < CONFIG_NRF_DFU_HTTP_MAX_RESPONSE_SIZE cfg \<or> NUL \<in> set data"
    and "parse_headers (c_str data) = Some (total_size, payload_size)"
    and "payload_size \<noteq> CONFIG_NRF_DFU_HTTP_MAX_FRAGMENT_SIZE cfg"
    and "download_size dfu + payload_size \<noteq> known_size dfu total_size"
    and "dfu' = dfu\<lparr>resp_buf := data, firmware_size := known_size dfu total_size,
                   status := (if size_mismatch dfu total_size then DFU_CLIENT_ERROR
                              else status dfu)\<rparr>"
    and "int_range total_size" and "int_range payload_size"
    and "int_range (download_size dfu)" and "int_range (firmware_size dfu)"
    and "int_range (download_size dfu + payload_size)"
  shows "dfu_client_process cfg e dfu =
           Some (dfu', SysRecv (fd dfu) (CONFIG_NRF_DFU_HTTP_MAX_RESPONSE_SIZE cfg) True #
                         (if size_mismatch dfu total_size
                          then [Callback dfu' DFU_CLIENT_EVT_ERROR (Some EFAULT)] else [])) \<and>
         dfu_client_process cfg e dfu' =
           Some (dfu', if size_mismatch dfu total_size then []
                       else [SysRecv (fd dfu) (CONFIG_NRF_DFU_HTTP_MAX_RESPONSE_SIZE cfg) True])"
  using process_stall(1) [OF assms(1-11)] process_stall(2) [OF assms(1-11)] by (rule conjI)

lemma short_response_facts:
  "take (CONFIG_NRF_DFU_HTTP_MAX_RESPONSE_SIZE cfg_1k)
     (partial_content 0 499 2500 False (replicate 500 CHR ''x'')) =
     partial_content 0 499 2500 False (replicate 500 CHR ''x'')"
  "partial_content 0 499 2500 False (replicate 500 CHR ''x'') \<noteq> []"
  "length (partial_content 0 499 2500 False (replicate 500 CHR ''x'')) <
     CONFIG_NRF_DFU_HTTP_MAX_RESPONSE_SIZE cfg_1k"
  "parse_headers (c_str (partial_content 0 499 2500 False (replicate 500 CHR ''x''))) =
     Some (2500, 500)"
proof -
  have len: "length (partial_content 0 499 2500 False (replicate 500 CHR ''x'')) \<le> 500 + 134"
    using length_partial_content_le [of 0 499 2500 "replicate 500 CHR ''x''" False] by simp
  then show "take (CONFIG_NRF_DFU_HTTP_MAX_RESPONSE_SIZE cfg_1k)
     (partial_content 0 499 2500 False (replicate 500 CHR ''x'')) =
     partial_content 0 499 2500 False (replicate 500 CHR ''x'')"
    by (simp add: cfg_1k_def)
  show "partial_content 0 499 2500 False (replicate 500 CHR ''x'') \<noteq> []"
    by (simp add: partial_content_def)
  show "length (partial_content 0 499 2500 False (replicate 500 CHR ''x'')) <
     CONFIG_NRF_DFU_HTTP_MAX_RESPONSE_SIZE cfg_1k"
    using len by (simp add: cfg_1k_def)
  show "parse_headers (c_str (partial_content 0 499 2500 False (replicate 500 CHR ''x''))) =
     Some (2500, 500)"
    using parse_headers_response [of 0 499 2500 500 False "c_str (replicate 500 CHR ''x'')"]
    by (simp add: partial_content_def c_str_append [OF header_no_NUL])
qed

theorem other_length_stalls_witness:
  "0 \<le> fd dfu_fresh \<and> status dfu_fresh = DFU_CLIENT_STATUS_DOWNLOAD_INPROGRESS \<and>
   callback dfu_fresh \<noteq> None \<and>
   recv_peek env_short = RecvData (partial_content 0 499 2500 False (replicate 500 CHR ''x'')) \<and>
   parse_headers (c_str (partial_content 0 499 2500 False (replicate 500 CHR ''x''))) =
     Some (2500, 500) \<and>
   500 \<noteq> CONFIG_NRF_DFU_HTTP_MAX_FRAGMENT_SIZE cfg_1k \<and>
   download_size dfu_fresh + 500 \<noteq> known_size dfu_fresh 2500 \<and>
   int_range 2500 \<and> int_range 500 \<and> int_range (download_size dfu_fresh) \<and>
   int_range (firmware_size dfu_fresh) \<and> int_range (download_size dfu_fresh + 500) \<and>
   dfu_client_process cfg_1k env_short dfu_fresh =
     Some (dfu_fresh\<lparr>resp_buf := partial_content 0 499 2500 False (replicate 500 CHR ''x''),
                     firmware_size := 2500,
                     status := DFU_CLIENT_STATUS_DOWNLOAD_INPROGRESS\<rparr>,
           [SysRecv 3 2048 True]) \<and>
   dfu_client_process cfg_1k env_short
       (dfu_fresh\<lparr>resp_buf := partial_content 0 499 2500 False (replicate 500 CHR ''x''),
                   firmware_size := 2500,
                   status := DFU_CLIENT_STATUS_DOWNLOAD_INPROGRESS\<rparr>) =
     Some (dfu_fresh\<lparr>resp_buf := partial_content 0 499 2500 False (replicate 500 CHR ''x''),
                     firmware_size := 2500,
                     status := DFU_CLIENT_STATUS_DOWNLOAD_INPROGRESS\<rparr>,
           [SysRecv 3 2048 True])"
proof -
  have h: "0 \<le> fd dfu_fresh" "status dfu_fresh = DFU_CLIENT_STATUS_DOWNLOAD_INPROGRESS"
    "callback dfu_fresh \<noteq> None"
    "recv_peek env_short = RecvData (partial_content 0 499 2500 False (replicate 500 CHR ''x''))"
    by (simp_all add: dfu_fresh_def dfu_connected_def env_short_def env_ok_def)
  have k: "(500::int) \<noteq> CONFIG_NRF_DFU_HTTP_MAX_FRAGMENT_SIZE cfg_1k"
    "download_size dfu_fresh + 500 \<noteq> known_size dfu_fresh 2500"
    by (simp_all add: dfu_fresh_def dfu_connected_def cfg_1k_def known_size_def)
  have r: "int_range 2500" "int_range 500" "int_range (download_size dfu_fresh)"
    "int_range (firmware_size dfu_fresh)" "int_range (download_size dfu_fresh + 500)"
    by (simp_all add: int_range_def INT_MAX_def dfu_fresh_def dfu_connected_def)
  have f: "known_size dfu_fresh 2500 = 2500" "\<not> size_mismatch dfu_fresh 2500" "fd dfu_fresh = 3"
    "CONFIG_NRF_DFU_HTTP_MAX_RESPONSE_SIZE cfg_1k = 2048"
    by (simp_all add: dfu_fresh_def dfu_connected_def cfg_1k_def known_size_def size_mismatch_def)
  from other_length_stalls [OF h short_response_facts(1) [symmetric] short_response_facts(2)
      disjI1 [OF short_response_facts(3)] short_response_facts(4) k refl r]
  show ?thesis
    using h k r short_response_facts(4) by (simp add: f)
qed

theorem learned_size_counterexample:
  "firmware_size dfu_fresh = - 1 \<and> download_size dfu_fresh = 0 \<and>
   status dfu_fresh = DFU_CLIENT_STATUS_DOWNLOAD_INPROGRESS \<and>
   CONFIG_NRF_DFU_HTTP_MAX_FRAGMENT_SIZE cfg_1k = 1024 \<and>
   recv_peek env_short = RecvData (partial_content 0 499 2500 False (replicate 500 CHR ''x'')) \<and>
   parse_headers (c_str (partial_content 0 499 2500 False (replicate 500 CHR ''x''))) =
     Some (2500, 500) \<and>
   map_option (firmware_size \<circ> fst) (dfu_client_process cfg_1k env_short dfu_fresh) = Some 2500"
proof -
  have h: "0 \<le> fd dfu_fresh" "status dfu_fresh = DFU_CLIENT_STATUS_DOWNLOAD_INPROGRESS"
    "callback dfu_fresh \<noteq> None"
    "recv_peek env_short = RecvData (partial_content 0 499 2500 False (replicate 500 CHR ''x''))"
    by (simp_all add: dfu_fresh_def dfu_connected_def env_short_def env_ok_def)
  have k: "(500::int) \<noteq> CONFIG_NRF_DFU_HTTP_MAX_FRAGMENT_SIZE cfg_1k"
    "download_size dfu_fresh + 500 \<noteq> known_size dfu_fresh 2500"
    by (simp_all add: dfu_fresh_def dfu_connected_def cfg_1k_def known_size_def)
  have f: "firmware_size dfu_fresh = - 1" "download_size dfu_fresh = 0"
    "CONFIG_NRF_DFU_HTTP_MAX_FRAGMENT_SIZE cfg_1k = 1024" "known_size dfu_fresh 2500 = 2500"
    by (simp_all add: dfu_fresh_def dfu_connected_def cfg_1k_def known_size_def)
  from process_stall(1) [OF h short_response_facts(1) [symmetric] short_response_facts(2)
      disjI1 [OF short_response_facts(3)] short_response_facts(4) k refl]
  show ?thesis
    using h short_response_facts(4) by (simp add: f)
qed

subsection \<open>A fragment that is looked at\<close>

lemma background_quiet:
  "\<forall>a \<in> set tr. background a \<Longrightarrow>
     requests tr = [] \<and> DownloadDone \<notin> set (notifications tr) \<and>
     (\<forall>n. FragmentDelivered n \<notin> set (notifications tr))"
proof (induction tr)
  case Nil
  then show ?case by simp
next
  case (Cons a tr)
  then show ?case
    by (cases a rule: background.cases) auto
qed

lemma httpc_connect_quiet:
  assumes "httpc_connect e hst port family proto = Some (s, trc)"
  shows "requests trc = [] \<and> notifications trc = []"
proof -
  have "\<forall>a \<in> set tr. (\<exists>h. a = SysGetaddrinfo h port family proto) \<or> a = SysSocket family proto \<or>
         a = SysFreeaddrinfo \<or> (\<exists>s. a = SysClose s) \<or>
         (\<exists>s ra. a = SysConnect s ra \<and> sin_port ra = 80) \<Longrightarrow>
        requests tr = [] \<and> notifications tr = []" for tr
    by (induction tr) auto
  then show ?thesis
    using httpc_connect_actions [OF assms] by blast
qed

lemma rxdata_flush_background:
  "rxdata_flush cfg e dfu = (dfu', tr) \<Longrightarrow> \<forall>a \<in> set tr. background a"
  by (auto simp: rxdata_flush_def Let_def split: if_splits recv_result.splits)

lemma rxdata_flush_fields:
  "rxdata_flush cfg e dfu = (dfu', tr) \<Longrightarrow>
     fd dfu' = fd dfu \<and> host dfu' = host dfu \<and> resource dfu' = resource dfu \<and>
     callback dfu' = callback dfu \<and> download_size dfu' = download_size dfu \<and>
     firmware_size dfu' = firmware_size dfu \<and> status dfu' = status dfu"
  by (auto simp: rxdata_flush_def Let_def split: if_splits)

text \<open>What a call that goes beyond reading and reporting errors has done.\<close>

lemma process_accepted:
  assumes "dfu_client_process cfg e dfu = Some (dfu', tr)"
  shows "((\<forall>a \<in> set tr. background a) \<and> download_size dfu' = download_size dfu \<and>
            (firmware_size dfu' = firmware_size dfu \<or>
             (\<exists>bytes total_size payload_size. recv_peek e = RecvData bytes \<and>
                parse_headers (c_str (take (CONFIG_NRF_DFU_HTTP_MAX_RESPONSE_SIZE cfg) bytes)) =
                  Some (total_size, payload_size) \<and>
                firmware_size dfu' = known_size dfu total_size))) \<or>
         (\<exists>bytes data total_size payload_size dfu2 tr1 tr2 p.
            0 \<le> fd dfu \<and> status dfu = DFU_CLIENT_STATUS_DOWNLOAD_INPROGRESS \<and>
            recv_peek e = RecvData bytes \<and>
            data = take (CONFIG_NRF_DFU_HTTP_MAX_RESPONSE_SIZE cfg) bytes \<and>
            parse_headers (c_str data) = Some (total_size, payload_size) \<and>
            dfu2 = dfu\<lparr>resp_buf := data, firmware_size := known_size dfu total_size,
                       status := (if size_mismatch dfu total_size then DFU_CLIENT_ERROR
                                  else status dfu)\<rparr> \<and>
            (payload_size = CONFIG_NRF_DFU_HTTP_MAX_FRAGMENT_SIZE cfg \<or>
             download_size dfu + payload_size = known_size dfu total_size) \<and>
            accept_fragment cfg e dfu2 p payload_size = Some (dfu', tr2) \<and>
            (\<forall>a \<in> set tr1. background a) \<and>
            tr = tr1 @ tr2)"
  using process_cases [OF assms]
proof (elim disjE exE conjE)
  fix bytes data total_size payload_size dfu2 tr1 tr2
  assume a: "0 \<le> fd dfu" "status dfu = DFU_CLIENT_STATUS_DOWNLOAD_INPROGRESS"
    "recv_peek e = RecvData bytes"
    "data = take (CONFIG_NRF_DFU_HTTP_MAX_RESPONSE_SIZE cfg) bytes"
    "parse_headers (c_str data) = Some (total_size, payload_size)"
    "check_total_size (dfu\<lparr>resp_buf := data\<rparr>) total_size = Some (dfu2, tr1)"
    "deliver_fragment cfg e dfu2 (length data) payload_size = Some (dfu', tr2)"
    "tr = SysRecv (fd dfu) (CONFIG_NRF_DFU_HTTP_MAX_RESPONSE_SIZE cfg) True # tr1 @ tr2"
  note res = check_total_size_result [OF a(6)]
  have same: "known_size (dfu\<lparr>resp_buf := data\<rparr>) total_size = known_size dfu total_size"
    "size_mismatch (dfu\<lparr>resp_buf := data\<rparr>) total_size = size_mismatch dfu total_size"
    by (simp_all add: known_size_def size_mismatch_def)
  have d2: "dfu2 = dfu\<lparr>resp_buf := data, firmware_size := known_size dfu total_size,
                       status := (if size_mismatch dfu total_size then DFU_CLIENT_ERROR
                                  else status dfu)\<rparr>"
    using res by (simp add: same)
  have bg: "\<forall>a \<in> set (SysRecv (fd dfu) (CONFIG_NRF_DFU_HTTP_MAX_RESPONSE_SIZE cfg) True # tr1).
              background a"
    using res by (auto split: if_splits)
  have f2: "download_size dfu2 = download_size dfu"
    "firmware_size dfu2 = known_size dfu total_size"
    unfolding d2 by simp_all
  from deliver_fragment_cases [OF a(7)] show ?thesis
  proof (elim disjE exE conjE)
    assume "dfu' = dfu2" "tr2 = []"
    then show ?thesis
      using a(3,4,5,8) bg f2 by auto
  next
    fix p
    assume "accept_fragment cfg e dfu2 p payload_size = Some (dfu', tr2)"
      "payload_size = CONFIG_NRF_DFU_HTTP_MAX_FRAGMENT_SIZE cfg"
    then show ?thesis
      using a(1-5,8) d2 bg
      by (intro disjI2 exI [of _ bytes] exI [of _ data] exI [of _ total_size]
          exI [of _ payload_size] exI [of _ dfu2]
          exI [of _ "SysRecv (fd dfu) (CONFIG_NRF_DFU_HTTP_MAX_RESPONSE_SIZE cfg) True # tr1"]
          exI [of _ tr2] exI [of _ p]) simp
  next
    fix p
    assume "accept_fragment cfg e dfu2 p payload_size = Some (dfu', tr2)"
      "download_size dfu2 + payload_size = firmware_size dfu2"
    then show ?thesis
      using a(1-5,8) d2 bg f2
      by (intro disjI2 exI [of _ bytes] exI [of _ data] exI [of _ total_size]
          exI [of _ payload_size] exI [of _ dfu2]
          exI [of _ "SysRecv (fd dfu) (CONFIG_NRF_DFU_HTTP_MAX_RESPONSE_SIZE cfg) True # tr1"]
          exI [of _ tr2] exI [of _ p]) simp
  qed
qed auto

lemma process_response:
  assumes "0 \<le> fd dfu" and "status dfu = DFU_CLIENT_STATUS_DOWNLOAD_INPROGRESS"
    and "callback dfu \<noteq> None"
    and "recv_peek e = RecvData (partial_content a b F cl payload)"
    and "length (partial_content a b F cl payload) < CONFIG_NRF_DFU_HTTP_MAX_RESPONSE_SIZE cfg"
    and "int (length payload) = CONFIG_NRF_DFU_HTTP_MAX_FRAGMENT_SIZE cfg \<or>
         download_size dfu + int (length payload) = known_size dfu (int F)"
    and "dfu2 = dfu\<lparr>resp_buf := partial_content a b F cl payload,
                   firmware_size := known_size dfu (int F),
                   status := (if size_mismatch dfu (int F) then DFU_CLIENT_ERROR
                              else status dfu)\<rparr>"
  shows "dfu_client_process cfg e dfu =
     map_option
       (\<lambda>(dfu3, tr2).
          (dfu3, SysRecv (fd dfu) (CONFIG_NRF_DFU_HTTP_MAX_RESPONSE_SIZE cfg) True #
                   (if size_mismatch dfu (int F)
                    then [Callback dfu2 DFU_CLIENT_EVT_ERROR (Some EFAULT)] else []) @ tr2))
       (accept_fragment cfg e dfu2 (length (response_header a b F (length payload) cl))
          (int (length payload)))"
proof -
  let ?data = "partial_content a b F cl payload"
  have data: "?data = take (CONFIG_NRF_DFU_HTTP_MAX_RESPONSE_SIZE cfg) ?data"
    using assms(5) by simp
  have ne: "?data \<noteq> []"
    by (simp add: partial_content_def response_header_def)
  have ph: "parse_headers (c_str ?data) = Some (int F, int (length payload))"
    by (simp only: partial_content_def c_str_append [OF header_no_NUL] parse_headers_response)
  obtain d2 tr1 where ct: "check_total_size (dfu\<lparr>resp_buf := ?data\<rparr>) (int F) = Some (d2, tr1)"
    using check_total_size_Some [of "dfu\<lparr>resp_buf := ?data\<rparr>" "int F"] assms(3) by auto
  note res = check_total_size_result [OF ct]
  have same: "known_size (dfu\<lparr>resp_buf := ?data\<rparr>) (int F) = known_size dfu (int F)"
    "size_mismatch (dfu\<lparr>resp_buf := ?data\<rparr>) (int F) = size_mismatch dfu (int F)"
    by (simp_all add: known_size_def size_mismatch_def)
  have d2: "d2 = dfu2"
    using res unfolding assms(7) by (simp add: same)
  have tr1: "tr1 = (if size_mismatch dfu (int F)
                    then [Callback dfu2 DFU_CLIENT_EVT_ERROR (Some EFAULT)] else [])"
    using res d2 by (simp add: same)
  have f2: "resp_buf dfu2 = ?data" "download_size dfu2 = download_size dfu"
    "firmware_size dfu2 = known_size dfu (int F)"
    unfolding assms(7) by simp_all
  have dl: "deliver_fragment cfg e dfu2 (length ?data) (int (length payload)) =
              accept_fragment cfg e dfu2 (length (response_header a b F (length payload) cl))
                (int (length payload))"
    using assms(6) by (intro deliver_fragment_response [OF f2(1) refl]) (simp add: f2)
  have "dfu_client_process cfg e dfu =
        map_option
          (\<lambda>(dfu3, tr2).
             (dfu3, SysRecv (fd dfu) (CONFIG_NRF_DFU_HTTP_MAX_RESPONSE_SIZE cfg) True # tr1 @ tr2))
          (deliver_fragment cfg e d2 (length ?data) (int (length payload)))"
    using process_data [OF assms(1,2,4) data ne disjI1 [OF assms(5)]] ph ct by simp
  then show ?thesis
    by (simp only: d2 dl tr1)
qed

lemma strstr_absent: "p \<notin> set xs \<Longrightarrow> strstr xs (p # ps) = None"
  using strstr_skip [of p xs "[]" ps] by simp

lemma connection_resume_plain:
  assumes "CHR ''C'' \<notin> set payload"
  shows "\<not> connection_resume (c_str (partial_content a b F False payload))"
proof -
  have "CHR ''C'' \<notin> set (c_str payload)"
    using assms set_takeWhileD [of "CHR ''C''" "\<lambda>c. c \<noteq> NUL" payload] by (auto simp: c_str_def)
  then have "strstr (response_header a b F (length payload) False @ c_str payload)
               ''Connection: '' = None"
    by (simp add: response_header_def CRLF_def strstr_skip strstr_absent)
  then show ?thesis
    by (simp add: connection_resume_def partial_content_def c_str_append [OF header_no_NUL])
qed

lemma request_texts:
  "REQUEST_TEMPLATE ''/fw.bin'' ''example.com'' 2048 3071 =
     ''GET /fw.bin HTTP/1.1'' @ CRLF @ ''Host: example.com'' @ CRLF @
     ''Connection: keep-alive'' @ CRLF @ ''Range: bytes=2048-3071'' @ CRLF @ CRLF"
  by code_simp

lemma length_fragment_response:
  assumes "a < 10 ^ 10" and "b < 10 ^ 10" and "F < 10 ^ 10" and "length payload \<le> 1024"
  shows "length (partial_content a b F cl payload) < CONFIG_NRF_DFU_HTTP_MAX_RESPONSE_SIZE cfg_1k"
  using length_partial_content_le [of a b F payload cl] assms by (simp add: cfg_1k_def)

subsection \<open>C1: a response with another total size\<close>

text \<open>
  C1. The claim says that a total size that differs from the one known puts the session
  in the error state, reports the error and ends the processing of the response, so that
  no further request is sent. The code sets the status and calls the handler, but has no
  \<^verbatim>\<open>return\<close> after it (the two error paths after \<^verbatim>\<open>recv\<close> have one): with
  2500 bytes known, 1024 downloaded and a response of 1024 bytes that declares a total
  of 3000, the call reports the error, then delivers the fragment, counts it and sends
  the request for the next range, which sets the status back to download in progress.
\<close>

theorem size_mismatch_goes_on:
  "\<exists>dfu' tr.
     dfu_client_process cfg_1k
       (env_recv (partial_content 1024 2047 3000 False (replicate 1024 CHR ''x'')))
       (dfu_progress 1024) = Some (dfu', tr) \<and>
     notifications tr = [ErrorReported (Some EFAULT), FragmentDelivered 1024] \<and>
     status dfu' = DFU_CLIENT_STATUS_DOWNLOAD_INPROGRESS \<and>
     download_size dfu' = 2048 \<and> firmware_size dfu' = 2500 \<and>
     requests tr =
       [(3, ''GET /fw.bin HTTP/1.1'' @ CRLF @ ''Host: example.com'' @ CRLF @
            ''Connection: keep-alive'' @ CRLF @ ''Range: bytes=2048-3071'' @ CRLF @ CRLF)]"
proof -
  let ?e = "env_recv (partial_content 1024 2047 3000 False (replicate 1024 CHR ''x''))"
  have h: "0 \<le> fd (dfu_progress 1024)"
    "status (dfu_progress 1024) = DFU_CLIENT_STATUS_DOWNLOAD_INPROGRESS"
    "callback (dfu_progress 1024) \<noteq> None"
    "recv_peek ?e = RecvData (partial_content 1024 2047 3000 False (replicate 1024 CHR ''x''))"
    by (simp_all add: dfu_progress_def dfu_connected_def env_recv_def env_ok_def)
  have len: "length (partial_content 1024 2047 3000 False (replicate 1024 CHR ''x'')) <
               CONFIG_NRF_DFU_HTTP_MAX_RESPONSE_SIZE cfg_1k"
    by (rule length_fragment_response) simp_all
  have full: "int (length (replicate 1024 CHR ''x'')) = CONFIG_NRF_DFU_HTTP_MAX_FRAGMENT_SIZE cfg_1k"
    by (simp add: cfg_1k_def)
  have nores: "\<not> connection_resume
                  (c_str (partial_content 1024 2047 3000 False (replicate 1024 CHR ''x'')))"
    by (rule connection_resume_plain) simp
  have rl: "length (REQUEST_TEMPLATE ''/fw.bin'' ''example.com'' 2048 3071) = 91"
    by code_simp
  have ne: "REQUEST_TEMPLATE ''/fw.bin'' ''example.com'' 2048 3071 \<noteq> []"
    using rl by auto
  note p = process_response [OF h len disjI1 [OF full] refl]
  have "\<exists>dfu' tr.
     dfu_client_process cfg_1k ?e (dfu_progress 1024) = Some (dfu', tr) \<and>
     notifications tr = [ErrorReported (Some EFAULT), FragmentDelivered 1024] \<and>
     status dfu' = DFU_CLIENT_STATUS_DOWNLOAD_INPROGRESS \<and>
     download_size dfu' = 2048 \<and> firmware_size dfu' = 2500 \<and>
     requests tr = [(3, REQUEST_TEMPLATE ''/fw.bin'' ''example.com'' 2048 3071)]"
    unfolding p
    by (simp add: accept_fragment_def fragment_request_def rxdata_flush_def snprintf_def
        dfu_progress_def dfu_connected_def env_recv_def env_ok_def cfg_1k_def
        known_size_def size_mismatch_def nores rl ne Let_def)
  then show ?thesis
    unfolding request_texts .
qed

subsection \<open>Requests and sizes\<close>

lemma fragment_request_sizes:
  assumes "fragment_request cfg e dfu flush cl = Some (r, dfu', tr)"
  shows "download_size dfu' = download_size dfu \<and> firmware_size dfu' = firmware_size dfu"
proof -
  have fl: "download_size dfu1 = download_size dfu \<and> firmware_size dfu1 = firmware_size dfu"
    if "(if flush then rxdata_flush cfg e dfu else (dfu, [])) = (dfu1, tr1)" for dfu1 tr1
    using that rxdata_flush_fields [of cfg e dfu dfu1 tr1] by (auto split: if_splits)
  from fragment_request_cases [OF assms] show ?thesis
    by (elim disjE exE conjE) (auto dest!: fl)
qed

lemma accept_fragment_sizes:
  assumes "accept_fragment cfg e dfu p payload_size = Some (dfu', tr)"
  shows "firmware_size dfu' = firmware_size dfu \<and>
         (download_size dfu' = download_size dfu \<or>
          download_size dfu' = download_size dfu + payload_size)"
  using accept_fragment_cases [OF assms refl refl refl refl]
  by (elim disjE exE conjE)
    (auto dest!: fragment_request_sizes rxdata_flush_fields)

lemma process_sizes:
  assumes "dfu_client_process cfg e dfu = Some (dfu', tr)"
  shows "(download_size dfu' = download_size dfu \<and> firmware_size dfu' = firmware_size dfu) \<or>
         (\<exists>bytes total_size payload_size.
            recv_peek e = RecvData bytes \<and>
            parse_headers (c_str (take (CONFIG_NRF_DFU_HTTP_MAX_RESPONSE_SIZE cfg) bytes)) =
              Some (total_size, payload_size) \<and>
            firmware_size dfu' = known_size dfu total_size \<and>
            (download_size dfu' = download_size dfu \<or>
             download_size dfu' = download_size dfu + payload_size))"
proof -
  have acc: ?thesis
    if a: "recv_peek e = RecvData bytes"
      "data = take (CONFIG_NRF_DFU_HTTP_MAX_RESPONSE_SIZE cfg) bytes"
      "parse_headers (c_str data) = Some (total_size, payload_size)"
      "dfu2 = dfu\<lparr>resp_buf := data, firmware_size := known_size dfu total_size,
                       status := (if size_mismatch dfu total_size then DFU_CLIENT_ERROR
                                  else status dfu)\<rparr>"
      "accept_fragment cfg e dfu2 p payload_size = Some (dfu', tr2)"
    for bytes data total_size payload_size dfu2 tr2 p
  proof -
    have "firmware_size dfu2 = known_size dfu total_size" "download_size dfu2 = download_size dfu"
      unfolding a(4) by simp_all
    then show ?thesis
      using accept_fragment_sizes [OF a(5)] a(1,2,3) by auto
  qed
  from process_accepted [OF assms] show ?thesis
  proof (elim disjE exE conjE)
    fix bytes data total_size payload_size dfu2 tr1 tr2 p
    assume "recv_peek e = RecvData bytes"
      "data = take (CONFIG_NRF_DFU_HTTP_MAX_RESPONSE_SIZE cfg) bytes"
      "parse_headers (c_str data) = Some (total_size, payload_size)"
      "dfu2 = dfu\<lparr>resp_buf := data, firmware_size := known_size dfu total_size,
                       status := (if size_mismatch dfu total_size then DFU_CLIENT_ERROR
                                  else status dfu)\<rparr>"
      "accept_fragment cfg e dfu2 p payload_size = Some (dfu', tr2)"
    then show ?thesis by (rule acc)
  next
    fix bytes data total_size payload_size dfu2 tr1 tr2 p
    assume "recv_peek e = RecvData bytes"
      "data = take (CONFIG_NRF_DFU_HTTP_MAX_RESPONSE_SIZE cfg) bytes"
      "parse_headers (c_str data) = Some (total_size, payload_size)"
      "dfu2 = dfu\<lparr>resp_buf := data, firmware_size := known_size dfu total_size,
                       status := (if size_mismatch dfu total_size then DFU_CLIENT_ERROR
                                  else status dfu)\<rparr>"
      "accept_fragment cfg e dfu2 p payload_size = Some (dfu', tr2)"
    then show ?thesis by (rule acc)
  qed auto
qed

lemma fragment_request_sent:
  assumes "fragment_request cfg e dfu True cl = Some (r, dfu', tr)"
    and "host dfu = Some hst" and "resource dfu = Some res" and "callback dfu \<noteq> None"
    and "text = REQUEST_TEMPLATE res hst (download_size dfu)
                  (download_size dfu + CONFIG_NRF_DFU_HTTP_MAX_FRAGMENT_SIZE cfg - 1)"
  shows "(cl \<and> fd dfu' < 0 \<and> requests tr = [] \<and>
            DownloadDone \<notin> set (notifications tr)) \<or>
         (\<exists>tr0 trc.
            tr = tr0 @ (if cl then SysClose (fd dfu) # trc else []) @
                   [SysSend (fd dfu') (take (CONFIG_NRF_DFU_HTTP_MAX_REQUEST_SIZE cfg - 1) text)
                      (int (length text))] \<and>
            (\<forall>a \<in> set tr0. background a) \<and>
            (if cl then httpc_connect e (Some hst) None AF_INET IPPROTO_TCP = Some (fd dfu', trc) \<and>
                        0 \<le> fd dfu'
             else fd dfu' = fd dfu))"
proof -
  from fragment_request_cases [OF assms(1)] show ?thesis
  proof (elim disjE exE conjE)
    fix dfu1 tr1 s trc
    assume a: "(if True then rxdata_flush cfg e dfu else (dfu, [])) = (dfu1, tr1)" "cl"
      "httpc_connect e (host dfu1) None AF_INET IPPROTO_TCP = Some (s, trc)" "s < 0"
      "dfu' = dfu1\<lparr>fd := s\<rparr>"
      "tr = tr1 @ SysClose (fd dfu1) # trc @ [Callback dfu' DFU_CLIENT_EVT_ERROR (Some ECONNRESET)]"
    have fl: "rxdata_flush cfg e dfu = (dfu1, tr1)"
      using a(1) by simp
    have "requests tr1 = []" "DownloadDone \<notin> set (notifications tr1)"
      using background_quiet [OF rxdata_flush_background [OF fl]] by simp_all
    moreover have "requests trc = []" "notifications trc = []"
      using httpc_connect_quiet [OF a(3)] by simp_all
    ultimately show ?thesis
      using a(2,4,5,6) by simp
  next
    fix dfu1 tr1 s tr2 hst' res'
    assume a: "(if True then rxdata_flush cfg e dfu else (dfu, [])) = (dfu1, tr1)"
      "if cl then \<exists>trc. httpc_connect e (host dfu1) None AF_INET IPPROTO_TCP = Some (s, trc) \<and>
                          0 \<le> s \<and> tr2 = SysClose (fd dfu1) # trc
             else s = fd dfu1 \<and> tr2 = []"
      "host dfu = Some hst'" "resource dfu = Some res'"
      "dfu' = dfu1\<lparr>fd := s,
                     req_buf := take (CONFIG_NRF_DFU_HTTP_MAX_REQUEST_SIZE cfg - 1)
                       (REQUEST_TEMPLATE res' hst' (download_size dfu)
                          (download_size dfu + CONFIG_NRF_DFU_HTTP_MAX_FRAGMENT_SIZE cfg - 1)),
                     status := DFU_CLIENT_STATUS_DOWNLOAD_INPROGRESS\<rparr>"
      "tr = tr1 @ tr2 @
                   [SysSend s (req_buf dfu')
                      (int (length (REQUEST_TEMPLATE res' hst' (download_size dfu)
                          (download_size dfu + CONFIG_NRF_DFU_HTTP_MAX_FRAGMENT_SIZE cfg - 1))))]"
    have fl: "rxdata_flush cfg e dfu = (dfu1, tr1)"
      using a(1) by simp
    note f1 = rxdata_flush_fields [OF fl]
    have hr: "hst' = hst" "res' = res"
      using a(3,4) assms(2,3) by simp_all
    have fd': "fd dfu' = s" "req_buf dfu' = take (CONFIG_NRF_DFU_HTTP_MAX_REQUEST_SIZE cfg - 1) text"
      unfolding a(5) assms(5) hr by simp_all
    have tr: "tr = tr1 @ tr2 @
                [SysSend (fd dfu') (take (CONFIG_NRF_DFU_HTTP_MAX_REQUEST_SIZE cfg - 1) text)
                   (int (length text))]"
      using a(6) unfolding fd' assms(5) hr by simp
    show ?thesis
    proof (cases cl)
      case True
      then obtain trc where c: "httpc_connect e (host dfu1) None AF_INET IPPROTO_TCP = Some (s, trc)"
        "0 \<le> s" "tr2 = SysClose (fd dfu1) # trc"
        using a(2) by auto
      show ?thesis
        using True c tr f1 fd'(1) assms(2) rxdata_flush_background [OF fl]
        by (intro disjI2 exI [of _ tr1] exI [of _ trc]) simp
    next
      case False
      then have "s = fd dfu1" "tr2 = []"
        using a(2) by auto
      then show ?thesis
        using False tr f1 fd'(1) rxdata_flush_background [OF fl]
        by (intro disjI2 exI [of _ tr1] exI [of _ "[]"]) simp
    qed
  qed (use assms(2,3,4) in auto)
qed

lemma fragment_request_callbacks:
  assumes "fragment_request cfg e dfu flush cl = Some (r, dfu', tr)"
  shows "Callback dfuc DFU_CLIENT_EVT_DOWNLOAD_DONE st \<notin> set tr"
  using fragment_request_actions [OF assms, of "Callback dfuc DFU_CLIENT_EVT_DOWNLOAD_DONE st"]
  by auto

lemma requests_Nil_iff: "requests tr = [] \<longleftrightarrow> (\<forall>s buf len. SysSend s buf len \<notin> set tr)"
  by (induction tr rule: requests.induct) auto

lemma accept_fragment_retry:
  assumes "accept_fragment cfg e dfu p n = Some (dfu', tr)"
    and "Callback dfuc DFU_CLIENT_EVT_DOWNLOAD_DONE st \<in> set tr"
    and "done_ret e \<noteq> 0"
    and "host dfu = Some hst" and "resource dfu = Some res" and "0 \<le> fd dfu"
    and "text = REQUEST_TEMPLATE res hst (download_size dfu')
                  (download_size dfu' + CONFIG_NRF_DFU_HTTP_MAX_FRAGMENT_SIZE cfg - 1)"
  shows "download_size dfuc = download_size dfu + fragment_size dfuc \<and>
         download_size dfu' = download_size dfuc - fragment_size dfuc \<and>
         (0 \<le> fd dfu' \<longrightarrow>
            (\<exists>tr0. tr = tr0 @
                      [SysSend (fd dfu')
                         (take (CONFIG_NRF_DFU_HTTP_MAX_REQUEST_SIZE cfg - 1) text)
                         (int (length text))] \<and>
                    requests tr0 = []))"
proof -
  let ?dfu1 = "dfu\<lparr>fragment := Some p, fragment_size := n\<rparr>"
  let ?dfu2 = "?dfu1\<lparr>download_size := download_size dfu + n\<rparr>"
  let ?dfu3 = "?dfu2\<lparr>status := DFU_CLIENT_STATUS_DOWNLOAD_COMPLETE\<rparr>"
  let ?dfu4 = "?dfu3\<lparr>download_size := download_size ?dfu3 - n\<rparr>"
  note cases = accept_fragment_cases [OF assms(1) refl refl refl refl]
  have cb: "callback dfu \<noteq> None"
    using cases by simp
  from cases [THEN conjunct2] show ?thesis
  proof (elim disjE exE conjE)
    assume "tr = [Callback ?dfu1 DFU_CLIENT_EVT_DOWNLOAD_FRAG None]"
    then show ?thesis using assms(2) by simp
  next
    fix r tr3
    assume "fragment_request cfg e ?dfu2 True (connection_resume (c_str (resp_buf dfu))) =
              Some (r, dfu', tr3)"
      "tr = Callback ?dfu1 DFU_CLIENT_EVT_DOWNLOAD_FRAG None # tr3"
    then show ?thesis
      using assms(2) fragment_request_callbacks [of cfg e ?dfu2 True _ r dfu' tr3 dfuc st] by simp
  next
    assume "done_ret e = 0"
    then show ?thesis using assms(3) by simp
  next
    fix r tr3
    assume fr: "fragment_request cfg e ?dfu4 True (connection_resume (c_str (resp_buf dfu))) =
              Some (r, dfu', tr3)"
      and tr: "tr = Callback ?dfu1 DFU_CLIENT_EVT_DOWNLOAD_FRAG None #
                  Callback ?dfu3 DFU_CLIENT_EVT_DOWNLOAD_DONE None # tr3"
    have c: "dfuc = ?dfu3"
      using assms(2) tr fragment_request_callbacks [OF fr, of dfuc st] by simp
    have s4: "download_size dfu' = download_size ?dfu4"
      using fragment_request_sizes [OF fr] by simp
    have tx: "text = REQUEST_TEMPLATE res hst (download_size ?dfu4)
                  (download_size ?dfu4 + CONFIG_NRF_DFU_HTTP_MAX_FRAGMENT_SIZE cfg - 1)"
      unfolding assms(7) s4 ..
    have h4: "host ?dfu4 = Some hst" "resource ?dfu4 = Some res" "callback ?dfu4 \<noteq> None"
      "fd ?dfu4 = fd dfu"
      using assms(4,5) cb by simp_all
    have sizes: "download_size dfuc = download_size dfu + fragment_size dfuc"
      "download_size dfu' = download_size dfuc - fragment_size dfuc"
      unfolding c s4 by simp_all
    from fragment_request_sent [OF fr h4(1,2,3) tx]
    have "0 \<le> fd dfu' \<longrightarrow>
            (\<exists>tr0. tr = tr0 @
                      [SysSend (fd dfu')
                         (take (CONFIG_NRF_DFU_HTTP_MAX_REQUEST_SIZE cfg - 1) text)
                         (int (length text))] \<and>
                    requests tr0 = [])"
    proof (elim disjE exE conjE)
      assume "fd dfu' < 0"
      then show ?thesis by simp
    next
      fix tr0 trc
      assume a: "tr3 = tr0 @ (if connection_resume (c_str (resp_buf dfu))
                              then SysClose (fd ?dfu4) # trc else []) @
                   [SysSend (fd dfu') (take (CONFIG_NRF_DFU_HTTP_MAX_REQUEST_SIZE cfg - 1) text)
                      (int (length text))]"
        "\<forall>a \<in> set tr0. background a"
        "if connection_resume (c_str (resp_buf dfu))
         then httpc_connect e (Some hst) None AF_INET IPPROTO_TCP = Some (fd dfu', trc) \<and>
              0 \<le> fd dfu'
         else fd dfu' = fd ?dfu4"
      have "requests (if connection_resume (c_str (resp_buf dfu))
                      then SysClose (fd ?dfu4) # trc else []) = []"
        using a(3) httpc_connect_quiet [of e "Some hst" None AF_INET IPPROTO_TCP "fd dfu'" trc]
        by (auto split: if_splits)
      then have "requests (Callback ?dfu1 DFU_CLIENT_EVT_DOWNLOAD_FRAG None #
                  Callback ?dfu3 DFU_CLIENT_EVT_DOWNLOAD_DONE None # tr0 @
                  (if connection_resume (c_str (resp_buf dfu))
                      then SysClose (fd ?dfu4) # trc else [])) = []"
        using background_quiet [OF a(2)] by simp
      moreover have "tr = (Callback ?dfu1 DFU_CLIENT_EVT_DOWNLOAD_FRAG None #
                  Callback ?dfu3 DFU_CLIENT_EVT_DOWNLOAD_DONE None # tr0 @
                  (if connection_resume (c_str (resp_buf dfu))
                      then SysClose (fd ?dfu4) # trc else [])) @
                   [SysSend (fd dfu') (take (CONFIG_NRF_DFU_HTTP_MAX_REQUEST_SIZE cfg - 1) text)
                      (int (length text))]"
        unfolding tr a(1) by simp
      ultimately show ?thesis by blast
    qed
    then show ?thesis
      using sizes by simp
  qed
qed

lemma accept_fragment_resume:
  assumes "accept_fragment cfg e dfu p n = Some (dfu', tr)"
    and "connection_resume (c_str (resp_buf dfu))"
    and "SysSend s buf len \<in> set tr"
    and "host dfu = Some hst" and "resource dfu = Some res"
    and "text = REQUEST_TEMPLATE res hst (download_size dfu')
                  (download_size dfu' + CONFIG_NRF_DFU_HTTP_MAX_FRAGMENT_SIZE cfg - 1)"
  shows "\<exists>tr0 trc.
           tr = tr0 @ SysClose (fd dfu) # trc @ [SysSend s buf len] \<and> requests tr0 = [] \<and>
           httpc_connect e (Some hst) None AF_INET IPPROTO_TCP = Some (s, trc) \<and> 0 \<le> s \<and>
           fd dfu' = s \<and>
           buf = take (CONFIG_NRF_DFU_HTTP_MAX_REQUEST_SIZE cfg - 1) text \<and>
           len = int (length text)"
proof -
  let ?dfu1 = "dfu\<lparr>fragment := Some p, fragment_size := n\<rparr>"
  let ?dfu2 = "?dfu1\<lparr>download_size := download_size dfu + n\<rparr>"
  let ?dfu3 = "?dfu2\<lparr>status := DFU_CLIENT_STATUS_DOWNLOAD_COMPLETE\<rparr>"
  let ?dfu4 = "?dfu3\<lparr>download_size := download_size ?dfu3 - n\<rparr>"
  note cases = accept_fragment_cases [OF assms(1) refl refl refl refl]
  have cb: "callback dfu \<noteq> None"
    using cases by simp
  have req: ?thesis
    if fr: "fragment_request cfg e dfuq True True = Some (r, dfu', tr3)"
      and tr: "tr = pre @ tr3" and pre: "requests pre = []"
      and q: "host dfuq = Some hst" "resource dfuq = Some res" "callback dfuq \<noteq> None"
        "fd dfuq = fd dfu"
    for dfuq r tr3 pre
  proof -
    have tx: "text = REQUEST_TEMPLATE res hst (download_size dfuq)
                  (download_size dfuq + CONFIG_NRF_DFU_HTTP_MAX_FRAGMENT_SIZE cfg - 1)"
      unfolding assms(6) using fragment_request_sizes [OF fr] by simp
    have in3: "SysSend s buf len \<in> set tr3"
      using assms(3) pre unfolding tr by (auto simp: requests_Nil_iff)
    from fragment_request_sent [OF fr q(1,2,3) tx] show ?thesis
    proof (elim disjE exE conjE)
      assume "requests tr3 = []"
      then show ?thesis using in3 by (simp add: requests_Nil_iff)
    next
      fix tr0 trc
      assume a: "tr3 = tr0 @ (if True then SysClose (fd dfuq) # trc else []) @
                   [SysSend (fd dfu') (take (CONFIG_NRF_DFU_HTTP_MAX_REQUEST_SIZE cfg - 1) text)
                      (int (length text))]"
        "\<forall>a \<in> set tr0. background a"
        "if True
         then httpc_connect e (Some hst) None AF_INET IPPROTO_TCP = Some (fd dfu', trc) \<and>
              0 \<le> fd dfu'
         else fd dfu' = fd dfuq"
      have c: "httpc_connect e (Some hst) None AF_INET IPPROTO_TCP = Some (fd dfu', trc)"
        "0 \<le> fd dfu'"
        using a(3) by simp_all
      have q0: "requests tr0 = []" "requests trc = []"
        using background_quiet [OF a(2)] httpc_connect_quiet [OF c(1)] by simp_all
      then have "SysSend s buf len \<notin> set tr0" "SysSend s buf len \<notin> set trc"
        by (simp_all add: requests_Nil_iff)
      then have last: "s = fd dfu'"
        "buf = take (CONFIG_NRF_DFU_HTTP_MAX_REQUEST_SIZE cfg - 1) text" "len = int (length text)"
        using in3 unfolding a(1) by auto
      have "tr = (pre @ tr0) @ SysClose (fd dfu) # trc @ [SysSend s buf len]"
        unfolding tr a(1) last q(4) by simp
      moreover have "requests (pre @ tr0) = []"
        using pre q0 by simp
      ultimately show ?thesis
        using c last by blast
    qed
  qed
  from cases [THEN conjunct2] show ?thesis
  proof (elim disjE exE conjE)
    assume "tr = [Callback ?dfu1 DFU_CLIENT_EVT_DOWNLOAD_FRAG None]"
    then show ?thesis using assms(3) by simp
  next
    fix r tr3
    assume "fragment_request cfg e ?dfu2 True (connection_resume (c_str (resp_buf dfu))) =
              Some (r, dfu', tr3)"
      "tr = Callback ?dfu1 DFU_CLIENT_EVT_DOWNLOAD_FRAG None # tr3"
    then show ?thesis
      using assms(2,4,5) cb
      by (intro req [of ?dfu2 r tr3 "[Callback ?dfu1 DFU_CLIENT_EVT_DOWNLOAD_FRAG None]"])
        simp_all
  next
    fix tr3
    assume "rxdata_flush cfg e ?dfu3 = (dfu', tr3)"
      "tr = Callback ?dfu1 DFU_CLIENT_EVT_DOWNLOAD_FRAG None #
            Callback ?dfu3 DFU_CLIENT_EVT_DOWNLOAD_DONE None # tr3"
    then show ?thesis
      using assms(3) background_quiet [OF rxdata_flush_background, of cfg e ?dfu3 dfu' tr3]
      by (auto simp: requests_Nil_iff)
  next
    fix r tr3
    assume "fragment_request cfg e ?dfu4 True (connection_resume (c_str (resp_buf dfu))) =
              Some (r, dfu', tr3)"
      "tr = Callback ?dfu1 DFU_CLIENT_EVT_DOWNLOAD_FRAG None #
            Callback ?dfu3 DFU_CLIENT_EVT_DOWNLOAD_DONE None # tr3"
    then show ?thesis
      using assms(2,4,5) cb
      by (intro req [of ?dfu4 r tr3 "[Callback ?dfu1 DFU_CLIENT_EVT_DOWNLOAD_FRAG None,
            Callback ?dfu3 DFU_CLIENT_EVT_DOWNLOAD_DONE None]"])
        simp_all
  qed
qed

subsection \<open>C2: the downloaded size and the firmware size\<close>

text \<open>
  C2, as amended. The inequality \<open>download_size \<le> firmware_size\<close> for a known firmware
  size is kept by \<^verbatim>\<open>dfu_client_init\<close>, \<^verbatim>\<open>dfu_client_connect\<close>,
  \<^verbatim>\<open>dfu_client_download\<close> and \<^verbatim>\<open>dfu_client_disconnect\<close> under every answer of
  the outside, and by \<^verbatim>\<open>dfu_client_process\<close> for every response that stays within the
  firmware: whose declared \<^verbatim>\<open>Content-Length\<close> is at most the firmware size in force
  minus \<open>download_size\<close>, that size being not below \<open>download_size\<close>. The sizes of the
  object, the numbers of the response and the ranges of the requests are taken to lie in
  the range of an \<^verbatim>\<open>int\<close>.
\<close>

theorem size_invariant_preserved:
  assumes "size_invariant dfu"
    and "int_range (firmware_size dfu)" and "request_in_range cfg (download_size dfu)"
  shows "size_invariant (snd (dfu_client_init dfu)) \<and>
         size_invariant (fst (dfu_client_disconnect dfu)) \<and>
         (dfu_client_connect e dfu = Some (r1, dfu1, tr1) \<longrightarrow> size_invariant dfu1) \<and>
         (dfu_client_download cfg e dfu = Some (r2, dfu2, tr2) \<longrightarrow> size_invariant dfu2) \<and>
         (dfu_client_process cfg e dfu = Some (dfu3, tr3) \<and>
          (\<forall>bytes total_size payload_size.
             recv_peek e = RecvData bytes \<and>
             parse_headers (c_str (take (CONFIG_NRF_DFU_HTTP_MAX_RESPONSE_SIZE cfg) bytes)) =
               Some (total_size, payload_size) \<longrightarrow>
             int_range total_size \<and> int_range payload_size \<and>
             request_in_range cfg (download_size dfu + payload_size) \<and>
             within_firmware dfu total_size payload_size) \<longrightarrow>
          size_invariant dfu3)"
proof (intro conjI impI)
  show "size_invariant (snd (dfu_client_init dfu))"
    using assms(1) by (simp add: dfu_client_init_def size_invariant_def)
  show "size_invariant (fst (dfu_client_disconnect dfu))"
    using assms(1) by (simp add: dfu_client_disconnect_def size_invariant_def)
next
  assume "dfu_client_connect e dfu = Some (r1, dfu1, tr1)"
  then show "size_invariant dfu1"
    using assms(1)
    by (auto simp: dfu_client_connect_def size_invariant_def split: if_splits option.splits)
next
  assume a: "dfu_client_download cfg e dfu = Some (r2, dfu2, tr2)"
  show "size_invariant dfu2"
  proof (cases "fd dfu < 0 \<or> status dfu \<noteq> DFU_CLIENT_STATUS_CONNECTED")
    case True
    then show ?thesis
      using a assms(1) by (simp add: dfu_client_download_def)
  next
    case False
    then have "fragment_request cfg e (dfu\<lparr>firmware_size := - 1\<rparr>) False False =
                 Some (r2, dfu2, tr2)"
      using a by (simp add: dfu_client_download_def)
    from fragment_request_sizes [OF this] show ?thesis
      by (simp add: size_invariant_def)
  qed
next
  assume a: "dfu_client_process cfg e dfu = Some (dfu3, tr3) \<and>
          (\<forall>bytes total_size payload_size.
             recv_peek e = RecvData bytes \<and>
             parse_headers (c_str (take (CONFIG_NRF_DFU_HTTP_MAX_RESPONSE_SIZE cfg) bytes)) =
               Some (total_size, payload_size) \<longrightarrow>
             int_range total_size \<and> int_range payload_size \<and>
             request_in_range cfg (download_size dfu + payload_size) \<and>
             within_firmware dfu total_size payload_size)"
  from process_sizes [OF a [THEN conjunct1]] show "size_invariant dfu3"
  proof (elim disjE exE conjE)
    assume "download_size dfu3 = download_size dfu" "firmware_size dfu3 = firmware_size dfu"
    then show ?thesis
      using assms(1) by (simp add: size_invariant_def)
  next
    fix bytes total_size payload_size
    assume b: "recv_peek e = RecvData bytes"
      "parse_headers (c_str (take (CONFIG_NRF_DFU_HTTP_MAX_RESPONSE_SIZE cfg) bytes)) =
         Some (total_size, payload_size)"
      "firmware_size dfu3 = known_size dfu total_size"
      "download_size dfu3 = download_size dfu"
    have "within_firmware dfu total_size payload_size"
      using a b(1,2) by blast
    then show ?thesis
      using b(3,4) by (simp add: within_firmware_def size_invariant_def)
  next
    fix bytes total_size payload_size
    assume b: "recv_peek e = RecvData bytes"
      "parse_headers (c_str (take (CONFIG_NRF_DFU_HTTP_MAX_RESPONSE_SIZE cfg) bytes)) =
         Some (total_size, payload_size)"
      "firmware_size dfu3 = known_size dfu total_size"
      "download_size dfu3 = download_size dfu + payload_size"
    have "within_firmware dfu total_size payload_size"
      using a b(1,2) by blast
    then show ?thesis
      using b(3,4) by (simp add: within_firmware_def size_invariant_def)
  qed
qed

subsection \<open>C4: the completion is rejected\<close>

lemma process_retry:
  assumes "dfu_client_process cfg e dfu = Some (dfu', tr)"
    and "Callback dfuc DFU_CLIENT_EVT_DOWNLOAD_DONE st \<in> set tr"
    and "done_ret e \<noteq> 0"
    and "host dfu = Some hst" and "resource dfu = Some res"
  shows "download_size dfuc = download_size dfu + fragment_size dfuc \<and>
         download_size dfu' = download_size dfuc - fragment_size dfuc \<and>
         (0 \<le> fd dfu' \<longrightarrow>
            (\<exists>tr0. tr = tr0 @
                      [SysSend (fd dfu')
                         (take (CONFIG_NRF_DFU_HTTP_MAX_REQUEST_SIZE cfg - 1)
                            (REQUEST_TEMPLATE res hst (download_size dfu')
                               (download_size dfu' +
                                  CONFIG_NRF_DFU_HTTP_MAX_FRAGMENT_SIZE cfg - 1)))
                         (int (length
                            (REQUEST_TEMPLATE res hst (download_size dfu')
                               (download_size dfu' +
                                  CONFIG_NRF_DFU_HTTP_MAX_FRAGMENT_SIZE cfg - 1))))] \<and>
                    requests tr0 = []))"
proof -
  have acc: ?thesis
    if a: "0 \<le> fd dfu"
      "dfu2 = dfu\<lparr>resp_buf := data, firmware_size := known_size dfu total_size,
                       status := (if size_mismatch dfu total_size then DFU_CLIENT_ERROR
                                  else status dfu)\<rparr>"
      "accept_fragment cfg e dfu2 p payload_size = Some (dfu', tr2)"
      "\<forall>a \<in> set tr1. background a" "tr = tr1 @ tr2"
    for data total_size payload_size dfu2 tr1 tr2 p
  proof -
    have f2: "host dfu2 = Some hst" "resource dfu2 = Some res" "0 \<le> fd dfu2"
      "download_size dfu2 = download_size dfu"
      unfolding a(2) using assms(4,5) a(1) by simp_all
    have "\<not> background (Callback dfuc DFU_CLIENT_EVT_DOWNLOAD_DONE st)"
      by simp
    then have in2: "Callback dfuc DFU_CLIENT_EVT_DOWNLOAD_DONE st \<in> set tr2"
      using assms(2) a(4,5) by auto
    note r = accept_fragment_retry [OF a(3) in2 assms(3) f2(1,2,3) refl]
    have "\<exists>tr0'. tr = tr0' @ [x] \<and> requests tr0' = []"
      if "tr2 = tr0 @ [x]" "requests tr0 = []" for tr0 x
      using that a(5) background_quiet [OF a(4)]
      by (intro exI [of _ "tr1 @ tr0"]) simp
    then show ?thesis
      using r unfolding f2(4) by blast
  qed
  from process_accepted [OF assms(1)] show ?thesis
  proof (elim disjE exE conjE)
    assume "\<forall>a \<in> set tr. background a"
    then show ?thesis using assms(2) by auto
  next
    assume "\<forall>a \<in> set tr. background a"
    then show ?thesis using assms(2) by auto
  next
    fix bytes data total_size payload_size dfu2 tr1 tr2 p
    assume "0 \<le> fd dfu"
      "dfu2 = dfu\<lparr>resp_buf := data, firmware_size := known_size dfu total_size,
                       status := (if size_mismatch dfu total_size then DFU_CLIENT_ERROR
                                  else status dfu)\<rparr>"
      "accept_fragment cfg e dfu2 p payload_size = Some (dfu', tr2)"
      "\<forall>a \<in> set tr1. background a" "tr = tr1 @ tr2"
    then show ?thesis by (rule acc)
  next
    fix bytes data total_size payload_size dfu2 tr1 tr2 p
    assume "0 \<le> fd dfu"
      "dfu2 = dfu\<lparr>resp_buf := data, firmware_size := known_size dfu total_size,
                       status := (if size_mismatch dfu total_size then DFU_CLIENT_ERROR
                                  else status dfu)\<rparr>"
      "accept_fragment cfg e dfu2 p payload_size = Some (dfu', tr2)"
      "\<forall>a \<in> set tr1. background a" "tr = tr1 @ tr2"
    then show ?thesis by (rule acc)
  qed
qed

text \<open>
  C4, as amended. When the last fragment completes the download and the handler answers
  the completion event with a failure, \<^verbatim>\<open>dfu_client_process\<close> takes the length of
  that fragment off \<open>download_size\<close> again, which is then what it was before the call,
  and calls \<^verbatim>\<open>fragment_request\<close>. Let the request for the range from \<open>download_size\<close>
  to \<open>download_size\<close> plus the maximum fragment size minus 1 fit the request buffer, and
  let this range and the firmware size lie in the range of an \<^verbatim>\<open>int\<close>. Then, unless a
  reconnect asked for by the response fails (the connection handle is then negative), the
  last action of the call is the \<^verbatim>\<open>send\<close> of that request, whose text is written out
  below, and no other request is sent. After a last fragment of 452 bytes at offset 2048
  this is the range 2048-3071, the same as in the request before.
\<close>

theorem rejected_completion_retries:
  assumes "dfu_client_process cfg e dfu = Some (dfu', tr)"
    and "Callback dfuc DFU_CLIENT_EVT_DOWNLOAD_DONE st \<in> set tr"
    and "done_ret e \<noteq> 0"
    and "host dfu = Some hst" and "resource dfu = Some res"
    and "request =
           ''GET '' @ res @ '' HTTP/1.1'' @ CRLF @ ''Host: '' @ hst @ CRLF @
           ''Connection: keep-alive'' @ CRLF @
           ''Range: bytes='' @ print_int (download_size dfu) @ ''-'' @
           print_int (download_size dfu + CONFIG_NRF_DFU_HTTP_MAX_FRAGMENT_SIZE cfg - 1) @
           CRLF @ CRLF"
    and "length request < CONFIG_NRF_DFU_HTTP_MAX_REQUEST_SIZE cfg"
    and "request_in_range cfg (download_size dfu)"
    and "int_range (firmware_size dfu')"
  shows "download_size dfuc = download_size dfu + fragment_size dfuc \<and>
         download_size dfu' = download_size dfu \<and>
         (0 \<le> fd dfu' \<longrightarrow>
            (\<exists>tr0. tr = tr0 @ [SysSend (fd dfu') request (int (length request))] \<and>
                    requests tr0 = []))"
proof -
  note old = process_retry [OF assms(1,2,3,4,5)]
  have d: "download_size dfu' = download_size dfu"
    using old by simp
  have req: "REQUEST_TEMPLATE res hst (download_size dfu')
               (download_size dfu' + CONFIG_NRF_DFU_HTTP_MAX_FRAGMENT_SIZE cfg - 1) = request"
    unfolding d assms(6) by (simp add: REQUEST_TEMPLATE_def)
  have tk: "take (CONFIG_NRF_DFU_HTTP_MAX_REQUEST_SIZE cfg - 1) request = request"
    using assms(7) by simp
  show ?thesis
    using old d unfolding req tk by blast
qed

subsection \<open>C6: the server closes the connection\<close>

lemma httpc_connect_loop_reaches:
  assumes "\<forall>a \<in> set failed. sa_family a = family \<longrightarrow> connect_ret e s (a\<lparr>sin_port := 80\<rparr>) \<noteq> 0"
    and "sa_family addr = family" and "connect_ret e s (addr\<lparr>sin_port := 80\<rparr>) = 0"
  shows "httpc_connect_loop e s family rc (failed @ addr # others) =
           Some (0, map (\<lambda>a. SysConnect s (a\<lparr>sin_port := 80\<rparr>))
                      (filter (\<lambda>a. sa_family a = family) failed) @
                    [SysConnect s (addr\<lparr>sin_port := 80\<rparr>)])"
  using assms
proof (induction failed arbitrary: rc)
  case Nil
  then show ?case by (simp add: Let_def)
next
  case (Cons x xs)
  then show ?case by (simp add: Let_def)
qed

lemma httpc_connect_reaches:
  assumes "getaddrinfo_ret e hst port family proto = (rc, failed @ addr # others)"
    and "0 \<le> rc" and "socket_ret e family proto = s" and "0 \<le> s"
    and "\<forall>a \<in> set failed. sa_family a = family \<longrightarrow> connect_ret e s (a\<lparr>sin_port := 80\<rparr>) \<noteq> 0"
    and "sa_family addr = family" and "connect_ret e s (addr\<lparr>sin_port := 80\<rparr>) = 0"
  shows "httpc_connect e (Some hst) port family proto =
           Some (s, [SysGetaddrinfo hst port family proto, SysSocket family proto] @
                    map (\<lambda>a. SysConnect s (a\<lparr>sin_port := 80\<rparr>))
                      (filter (\<lambda>a. sa_family a = family) failed) @
                    [SysConnect s (addr\<lparr>sin_port := 80\<rparr>), SysFreeaddrinfo])"
  using assms(1,2,3,4) httpc_connect_loop_reaches [OF assms(5,6,7), of rc others]
  by (simp add: httpc_connect_def Let_def)





subsection \<open>The examples of C2\<close>

lemma progress_facts:
  "0 \<le> fd (dfu_progress k)"
  "status (dfu_progress k) = DFU_CLIENT_STATUS_DOWNLOAD_INPROGRESS"
  "callback (dfu_progress k) \<noteq> None"
  "host (dfu_progress k) = Some ''example.com''"
  "resource (dfu_progress k) = Some ''/fw.bin''"
  "download_size (dfu_progress k) = k"
  "firmware_size (dfu_progress k) = 2500"
  "fd (dfu_progress k) = 3"
  by (simp_all add: dfu_progress_def dfu_connected_def)

lemma request_length:
  "length (REQUEST_TEMPLATE ''/fw.bin'' ''example.com'' 2048 3071) = 91"
  by code_simp

text \<open>
  The claim C2 as stated fails: with 2048 of 2500 bytes downloaded, a response of full
  length, 1024 bytes, is taken as a fragment and \<open>download_size\<close> becomes 3072.
\<close>

theorem oversized_fragment_counterexample:
  "size_invariant (dfu_progress 2048) \<and>
   (\<exists>dfu' tr.
      dfu_client_process cfg_1k
        (env_recv (partial_content 2048 3071 2500 False (replicate 1024 CHR ''x'')))
        (dfu_progress 2048) = Some (dfu', tr) \<and>
      firmware_size dfu' = 2500 \<and> download_size dfu' = 3072 \<and> \<not> size_invariant dfu')"
proof -
  let ?x = "partial_content 2048 3071 2500 False (replicate 1024 CHR ''x'')"
  have peek: "recv_peek (env_recv ?x) = RecvData ?x"
    by (simp add: env_recv_def)
  have len: "length ?x < CONFIG_NRF_DFU_HTTP_MAX_RESPONSE_SIZE cfg_1k"
    by (rule length_fragment_response) simp_all
  have full: "int (length (replicate 1024 CHR ''x'')) = CONFIG_NRF_DFU_HTTP_MAX_FRAGMENT_SIZE cfg_1k"
    by (simp add: cfg_1k_def)
  have nores: "\<not> connection_resume (c_str ?x)"
    by (rule connection_resume_plain) simp
  note p = process_response [OF progress_facts(1,2,3) peek len disjI1 [OF full] refl]
  have "\<exists>dfu' tr.
      dfu_client_process cfg_1k (env_recv ?x) (dfu_progress 2048) = Some (dfu', tr) \<and>
      firmware_size dfu' = 2500 \<and> download_size dfu' = 3072"
    unfolding p
    by (simp add: accept_fragment_def fragment_request_def rxdata_flush_def snprintf_def
        dfu_progress_def dfu_connected_def env_recv_def env_ok_def cfg_1k_def
        known_size_def size_mismatch_def nores Let_def REQUEST_TEMPLATE_def)
  then show ?thesis
    by (auto simp: size_invariant_def progress_facts)
qed

lemma notifications_DownloadDone:
  "DownloadDone \<in> set (notifications tr) \<Longrightarrow>
     \<exists>dfuc st. Callback dfuc DFU_CLIENT_EVT_DOWNLOAD_DONE st \<in> set tr"
  by (induction tr rule: notifications.induct) auto

text \<open>The amended C2 at an object with 1024 of 2500 bytes and the next full fragment.\<close>

theorem size_invariant_preserved_witness:
  "size_invariant (dfu_progress 1024) \<and>
   int_range (firmware_size (dfu_progress 1024)) \<and>
   request_in_range cfg_1k (download_size (dfu_progress 1024)) \<and>
   size_invariant (snd (dfu_client_init (dfu_progress 1024))) \<and>
   size_invariant (fst (dfu_client_disconnect (dfu_progress 1024))) \<and>
   (\<exists>r1 dfu1 tr1.
      dfu_client_connect
        (env_recv (partial_content 1024 2047 2500 False (replicate 1024 CHR ''x'')))
        (dfu_progress 1024) = Some (r1, dfu1, tr1) \<and> size_invariant dfu1) \<and>
   (\<exists>r2 dfu2 tr2.
      dfu_client_download cfg_1k
        (env_recv (partial_content 1024 2047 2500 False (replicate 1024 CHR ''x'')))
        (dfu_progress 1024) = Some (r2, dfu2, tr2) \<and> size_invariant dfu2) \<and>
   parse_headers (c_str (partial_content 1024 2047 2500 False (replicate 1024 CHR ''x''))) =
     Some (2500, 1024) \<and>
   int_range 2500 \<and> int_range 1024 \<and>
   request_in_range cfg_1k (download_size (dfu_progress 1024) + 1024) \<and>
   within_firmware (dfu_progress 1024) 2500 1024 \<and>
   (\<exists>dfu3 tr3.
      dfu_client_process cfg_1k
        (env_recv (partial_content 1024 2047 2500 False (replicate 1024 CHR ''x'')))
        (dfu_progress 1024) = Some (dfu3, tr3) \<and>
      download_size dfu3 = 2048 \<and> size_invariant dfu3)"
proof -
  let ?x = "partial_content 1024 2047 2500 False (replicate 1024 CHR ''x'')"
  let ?e = "env_recv ?x"
  let ?d = "dfu_progress 1024"
  have inv: "size_invariant ?d"
    by (simp add: size_invariant_def progress_facts)
  have rg: "int_range (firmware_size ?d)" "request_in_range cfg_1k (download_size ?d)"
    "int_range 2500" "int_range 1024" "request_in_range cfg_1k (download_size ?d + 1024)"
    by (simp_all add: request_in_range_def int_range_def INT_MAX_def progress_facts cfg_1k_def)
  have peek: "recv_peek ?e = RecvData ?x"
    by (simp add: env_recv_def)
  have len: "length ?x < CONFIG_NRF_DFU_HTTP_MAX_RESPONSE_SIZE cfg_1k"
    by (rule length_fragment_response) simp_all
  have full: "int (length (replicate 1024 CHR ''x'')) = CONFIG_NRF_DFU_HTTP_MAX_FRAGMENT_SIZE cfg_1k"
    by (simp add: cfg_1k_def)
  have nores: "\<not> connection_resume (c_str ?x)"
    by (rule connection_resume_plain) simp
  have ph: "parse_headers (c_str ?x) = Some (2500, 1024)"
    using parse_headers_response [of 1024 2047 2500 1024 False "c_str (replicate 1024 CHR ''x'')"]
    by (simp add: partial_content_def c_str_append [OF header_no_NUL])
  have wf: "within_firmware ?d 2500 1024"
    by (simp add: within_firmware_def known_size_def progress_facts)
  obtain r1 dfu1 tr1 where c: "dfu_client_connect ?e ?d = Some (r1, dfu1, tr1)"
    by (simp add: dfu_client_connect_def httpc_connect_def progress_facts env_recv_def env_ok_def
        server_addr_def)
  obtain r2 dfu2 tr2 where d: "dfu_client_download cfg_1k ?e ?d = Some (r2, dfu2, tr2)"
    by (simp add: dfu_client_download_def progress_facts)
  note p = process_response [OF progress_facts(1,2,3) peek len disjI1 [OF full] refl]
  have "\<exists>dfu3 tr3. dfu_client_process cfg_1k ?e ?d = Some (dfu3, tr3) \<and> download_size dfu3 = 2048"
    unfolding p
    by (simp add: accept_fragment_def fragment_request_def rxdata_flush_def snprintf_def
        dfu_progress_def dfu_connected_def env_recv_def env_ok_def cfg_1k_def
        known_size_def size_mismatch_def nores Let_def REQUEST_TEMPLATE_def)
  then obtain dfu3 tr3 where pr: "dfu_client_process cfg_1k ?e ?d = Some (dfu3, tr3)"
    "download_size dfu3 = 2048"
    by blast
  have hyp: "\<forall>bytes total_size payload_size.
             recv_peek ?e = RecvData bytes \<and>
             parse_headers (c_str (take (CONFIG_NRF_DFU_HTTP_MAX_RESPONSE_SIZE cfg_1k) bytes)) =
               Some (total_size, payload_size) \<longrightarrow>
             int_range total_size \<and> int_range payload_size \<and>
             request_in_range cfg_1k (download_size ?d + payload_size) \<and>
             within_firmware ?d total_size payload_size"
    using len ph wf rg(3,4,5) by (auto simp: peek)
  from size_invariant_preserved [OF inv rg(1,2), of ?e r1 dfu1 tr1 r2 dfu2 tr2 dfu3 tr3]
  show ?thesis
    using inv c d pr hyp ph wf rg by auto
qed

subsection \<open>The examples of C4\<close>

lemma rejected_completion_eval:
  "\<exists>dfu' tr.
     dfu_client_process cfg_1k env_rejecting (dfu_progress 2048) = Some (dfu', tr) \<and>
     notifications tr = [FragmentDelivered 452, DownloadDone] \<and>
     download_size dfu' = 2048 \<and> fd dfu' = 3 \<and>
     requests tr = [(3, REQUEST_TEMPLATE ''/fw.bin'' ''example.com'' 2048 3071)]"
proof -
  let ?x = "partial_content 2048 2499 2500 False (replicate 452 CHR ''x'')"
  have peek: "recv_peek env_rejecting = RecvData ?x"
    by (simp add: env_rejecting_def env_recv_def)
  have len: "length ?x < CONFIG_NRF_DFU_HTTP_MAX_RESPONSE_SIZE cfg_1k"
    by (rule length_fragment_response) simp_all
  have last: "download_size (dfu_progress 2048) + int (length (replicate 452 CHR ''x'')) =
                known_size (dfu_progress 2048) (int 2500)"
    by (simp add: known_size_def progress_facts)
  have nores: "\<not> connection_resume (c_str ?x)"
    by (rule connection_resume_plain) simp
  have ne: "REQUEST_TEMPLATE ''/fw.bin'' ''example.com'' 2048 3071 \<noteq> []"
    using request_length by auto
  note p = process_response [OF progress_facts(1,2,3) peek len disjI2 [OF last] refl]
  show ?thesis
    unfolding p
    by (simp add: accept_fragment_def fragment_request_def rxdata_flush_def snprintf_def
        dfu_progress_def dfu_connected_def env_rejecting_def env_recv_def env_ok_def cfg_1k_def
        known_size_def size_mismatch_def nores request_length ne Let_def)
qed

text \<open>The amended C4 at the last fragment of 452 bytes at offset 2048.\<close>

theorem rejected_completion_retries_witness:
  "\<exists>dfu' tr dfuc st tr0.
     dfu_client_process cfg_1k env_rejecting (dfu_progress 2048) = Some (dfu', tr) \<and>
     Callback dfuc DFU_CLIENT_EVT_DOWNLOAD_DONE st \<in> set tr \<and>
     done_ret env_rejecting \<noteq> 0 \<and>
     host (dfu_progress 2048) = Some ''example.com'' \<and>
     resource (dfu_progress 2048) = Some ''/fw.bin'' \<and>
     firmware_size dfu' = 2500 \<and>
     download_size dfuc = 2048 + fragment_size dfuc \<and>
     download_size dfu' = 2048 \<and> 0 \<le> fd dfu' \<and>
     tr = tr0 @
       [SysSend 3
          (''GET /fw.bin HTTP/1.1'' @ CRLF @ ''Host: example.com'' @ CRLF @
           ''Connection: keep-alive'' @ CRLF @ ''Range: bytes=2048-3071'' @ CRLF @ CRLF) 91] \<and>
     requests tr0 = []"
proof -
  let ?request = "''GET /fw.bin HTTP/1.1'' @ CRLF @ ''Host: example.com'' @ CRLF @
           ''Connection: keep-alive'' @ CRLF @ ''Range: bytes=2048-3071'' @ CRLF @ CRLF"
  obtain dfu' tr where ev:
    "dfu_client_process cfg_1k env_rejecting (dfu_progress 2048) = Some (dfu', tr)"
    "notifications tr = [FragmentDelivered 452, DownloadDone]"
    "download_size dfu' = 2048" "fd dfu' = 3"
    using rejected_completion_eval by blast
  obtain dfuc st where cb: "Callback dfuc DFU_CLIENT_EVT_DOWNLOAD_DONE st \<in> set tr"
    using notifications_DownloadDone [of tr] ev(2) by auto
  have rej: "done_ret env_rejecting \<noteq> 0"
    by (simp add: env_rejecting_def)
  have req: "?request =
           ''GET '' @ ''/fw.bin'' @ '' HTTP/1.1'' @ CRLF @ ''Host: '' @ ''example.com'' @ CRLF @
           ''Connection: keep-alive'' @ CRLF @
           ''Range: bytes='' @ print_int (download_size (dfu_progress 2048)) @ ''-'' @
           print_int (download_size (dfu_progress 2048) +
                      CONFIG_NRF_DFU_HTTP_MAX_FRAGMENT_SIZE cfg_1k - 1) @ CRLF @ CRLF"
    using request_texts by (simp add: REQUEST_TEMPLATE_def progress_facts cfg_1k_def)
  have rl: "length ?request = 91"
    by (simp add: CRLF_def)
  have fits: "length ?request < CONFIG_NRF_DFU_HTTP_MAX_REQUEST_SIZE cfg_1k"
    unfolding rl by (simp add: cfg_1k_def)
  have rg: "request_in_range cfg_1k (download_size (dfu_progress 2048))"
    by (simp add: request_in_range_def int_range_def INT_MAX_def progress_facts cfg_1k_def)
  have "known_size (dfu_progress 2048) t = 2500" for t
    by (simp add: known_size_def progress_facts)
  then have fs: "firmware_size dfu' = 2500"
    using process_sizes [OF ev(1)] by (auto simp: progress_facts)
  then have rf: "int_range (firmware_size dfu')"
    by (simp add: int_range_def INT_MAX_def)
  from rejected_completion_retries [OF ev(1) cb rej progress_facts(4,5) req fits rg rf]
  have "download_size dfuc = 2048 + fragment_size dfuc \<and>
        (\<exists>tr0. tr = tr0 @ [SysSend 3 ?request 91] \<and> requests tr0 = [])"
    unfolding rl by (simp add: ev(3,4) progress_facts)
  then show ?thesis
    using ev cb rej fs progress_facts(4,5) by auto
qed

lemma request_texts_2:
  "REQUEST_TEMPLATE ''/fw.bin'' ''example.com'' 2048 2499 =
     ''GET /fw.bin HTTP/1.1'' @ CRLF @ ''Host: example.com'' @ CRLF @
     ''Connection: keep-alive'' @ CRLF @ ''Range: bytes=2048-2499'' @ CRLF @ CRLF"
  by code_simp

text \<open>
  The example of the claim C4 fails: the request sent again is the one for the range
  2048-3071, not one for 2048-2499.
\<close>

theorem retry_range_counterexample:
  "\<exists>dfu' tr.
     dfu_client_process cfg_1k env_rejecting (dfu_progress 2048) = Some (dfu', tr) \<and>
     notifications tr = [FragmentDelivered 452, DownloadDone] \<and>
     download_size dfu' = 2048 \<and>
     requests tr =
       [(3, ''GET /fw.bin HTTP/1.1'' @ CRLF @ ''Host: example.com'' @ CRLF @
            ''Connection: keep-alive'' @ CRLF @ ''Range: bytes=2048-3071'' @ CRLF @ CRLF)] \<and>
     requests tr \<noteq> [(3, REQUEST_TEMPLATE ''/fw.bin'' ''example.com'' 2048 2499)]"
proof -
  obtain dfu' tr where ev:
    "dfu_client_process cfg_1k env_rejecting (dfu_progress 2048) = Some (dfu', tr)"
    "notifications tr = [FragmentDelivered 452, DownloadDone]"
    "download_size dfu' = 2048"
    "requests tr = [(3, REQUEST_TEMPLATE ''/fw.bin'' ''example.com'' 2048 3071)]"
    using rejected_completion_eval by blast
  have "REQUEST_TEMPLATE ''/fw.bin'' ''example.com'' 2048 3071 \<noteq>
        REQUEST_TEMPLATE ''/fw.bin'' ''example.com'' 2048 2499"
    unfolding request_texts request_texts_2 by (simp add: CRLF_def)
  then show ?thesis
    using ev unfolding request_texts by auto
qed

subsection \<open>The examples of C6 and C7\<close>


lemma requests_SysSend:
  "requests tr = [(s, b)] \<Longrightarrow> \<exists>buf len. SysSend s buf len \<in> set tr"
  by (induction tr rule: requests.induct) (auto split: if_splits)



text \<open>
  The claim C7 as stated fails: when the reconnect after \<^verbatim>\<open>Connection: close\<close>
  fails, the object is left without a handle in the state download in progress, and
  \<^verbatim>\<open>dfu_client_disconnect\<close> leaves it there.
\<close>

theorem disconnect_without_handle_counterexample:
  "\<exists>dfu' tr.
     dfu_client_process cfg_1k env_unreachable (dfu_progress 1024) = Some (dfu', tr) \<and>
     fd dfu' = - 1 \<and> status dfu' = DFU_CLIENT_STATUS_DOWNLOAD_INPROGRESS \<and>
     dfu_client_disconnect dfu' = (dfu', []) \<and>
     status (fst (dfu_client_disconnect dfu')) \<noteq> DFU_CLIENT_STATUS_IDLE"
proof -
  let ?x = "partial_content 1024 2047 2500 True (replicate 1024 CHR ''x'')"
  have peek: "recv_peek env_unreachable = RecvData ?x"
    by (simp add: env_unreachable_def env_recv_def)
  have len: "length ?x < CONFIG_NRF_DFU_HTTP_MAX_RESPONSE_SIZE cfg_1k"
    by (rule length_fragment_response) simp_all
  have full: "int (length (replicate 1024 CHR ''x'')) = CONFIG_NRF_DFU_HTTP_MAX_FRAGMENT_SIZE cfg_1k"
    by (simp add: cfg_1k_def)
  have res: "connection_resume (c_str ?x)"
    unfolding partial_content_def c_str_append [OF header_no_NUL]
    by (rule connection_resume_close)
  note p = process_response [OF progress_facts(1,2,3) peek len disjI1 [OF full] refl]
  have "\<exists>dfu' tr.
     dfu_client_process cfg_1k env_unreachable (dfu_progress 1024) = Some (dfu', tr) \<and>
     fd dfu' = - 1 \<and> status dfu' = DFU_CLIENT_STATUS_DOWNLOAD_INPROGRESS"
    unfolding p
    by (simp add: accept_fragment_def fragment_request_def rxdata_flush_def snprintf_def
        httpc_connect_def
        dfu_progress_def dfu_connected_def env_unreachable_def env_recv_def env_ok_def cfg_1k_def
        known_size_def size_mismatch_def res Let_def)
  then show ?thesis
    by (auto simp: dfu_client_disconnect_def)
qed

subsection \<open>C3: the fragments of a download\<close>

lemma httpc_connect_loop_answers:
  "httpc_connect_loop (e\<lparr>recv_peek := p, recv_flush := q\<rparr>) s family rc addrs =
     httpc_connect_loop e s family rc addrs"
  by (induction addrs arbitrary: rc) (simp_all add: Let_def)

lemma httpc_connect_answers:
  "httpc_connect (e\<lparr>recv_peek := p, recv_flush := q\<rparr>) hst port family proto =
     httpc_connect e hst port family proto"
  by (cases hst)
    (simp_all add: httpc_connect_def httpc_connect_loop_answers Let_def split: prod.splits)

lemma length_print_int:
  assumes "0 \<le> i" and "i < 2 ^ 31"
  shows "length (print_int i) \<le> 10"
proof -
  have "nat i < 10 ^ 10"
    using assms by simp
  then have "length (dec (nat i)) \<le> 10"
    by (rule length_dec_le) simp
  then show ?thesis
    using assms(1) by (simp add: print_int_def)
qed

lemma length_REQUEST_TEMPLATE:
  assumes "0 \<le> a" and "a < 2 ^ 31" and "0 \<le> b" and "b < 2 ^ 31"
  shows "length (REQUEST_TEMPLATE res hst a b) \<le> length res + length hst + 85"
  using length_print_int [OF assms(1,2)] length_print_int [OF assms(3,4)]
  by (simp add: REQUEST_TEMPLATE_def CRLF_def)

lemma fragment_request_forward:
  assumes "host dfu = Some hst" and "resource dfu = Some res" and "callback dfu \<noteq> None"
    and "status dfu \<noteq> DFU_CLIENT_STATUS_IDLE"
    and "recv_flush e = RecvData x"
    and "cl \<longrightarrow> httpc_connect e (Some hst) None AF_INET IPPROTO_TCP = Some (s, trc) \<and> 0 \<le> s"
  shows "fragment_request cfg e dfu True cl =
     Some (send_ret e,
       dfu\<lparr>resp_buf := [], fd := (if cl then s else fd dfu),
           req_buf := take (CONFIG_NRF_DFU_HTTP_MAX_REQUEST_SIZE cfg - 1)
                        (REQUEST_TEMPLATE res hst (download_size dfu)
                           (download_size dfu + CONFIG_NRF_DFU_HTTP_MAX_FRAGMENT_SIZE cfg - 1)),
           status := DFU_CLIENT_STATUS_DOWNLOAD_INPROGRESS\<rparr>,
       SysRecv (fd dfu) (CONFIG_NRF_DFU_HTTP_MAX_RESPONSE_SIZE cfg) False #
         (if cl then SysClose (fd dfu) # trc else []) @
         [SysSend (if cl then s else fd dfu)
            (take (CONFIG_NRF_DFU_HTTP_MAX_REQUEST_SIZE cfg - 1)
               (REQUEST_TEMPLATE res hst (download_size dfu)
                  (download_size dfu + CONFIG_NRF_DFU_HTTP_MAX_FRAGMENT_SIZE cfg - 1)))
            (int (length
               (REQUEST_TEMPLATE res hst (download_size dfu)
                  (download_size dfu + CONFIG_NRF_DFU_HTTP_MAX_FRAGMENT_SIZE cfg - 1))))])"
proof -
  have ne: "REQUEST_TEMPLATE res hst a b \<noteq> []" for a b
    by (simp add: REQUEST_TEMPLATE_def)
  show ?thesis
  proof (cases cl)
    case True
    then show ?thesis
      using assms ne
      by (simp add: fragment_request_def rxdata_flush_def snprintf_def Let_def)
  next
    case False
    then show ?thesis
      using assms ne
      by (simp add: fragment_request_def rxdata_flush_def snprintf_def Let_def)
  qed
qed

lemma wire_connect:
  assumes "httpc_connect e hst port family proto = Some (s, trc)"
  shows "wire srv [] (trc @ tr) = wire srv [] tr"
proof -
  have "\<forall>a \<in> set xs. (\<exists>h. a = SysGetaddrinfo h port family proto) \<or> a = SysSocket family proto \<or>
         a = SysFreeaddrinfo \<or> (\<exists>s. a = SysClose s) \<or>
         (\<exists>s ra. a = SysConnect s ra \<and> sin_port ra = 80) \<Longrightarrow>
        wire srv [] (xs @ tr) = wire srv [] tr" for xs
    by (induction xs) auto
  then show ?thesis
    using httpc_connect_actions [OF assms] by blast
qed

lemma session_over:
  "status dfu \<noteq> DFU_CLIENT_STATUS_DOWNLOAD_INPROGRESS \<Longrightarrow>
     session cfg srv e n rx dfu = Some (replicate n (dfu, []))"
  by (induction n arbitrary: rx) (simp_all add: dfu_client_process_def)

lemma length_serve_range:
  assumes "a < length fw" and "0 < M" and "length fw + M < 2 ^ 31"
  shows "length (take (min (a + M - 1) (length fw - 1) + 1 - a) (drop a fw)) = min M (length fw - a)"
    and "length (serve_range fw a (a + M - 1)) \<le> M + 134"
proof -
  show l: "length (take (min (a + M - 1) (length fw - 1) + 1 - a) (drop a fw)) =
             min M (length fw - a)"
    using assms(1,2) by auto
  have big: "(2::nat) ^ 31 < 10 ^ 10"
    by simp
  have "length (serve_range fw a (a + M - 1)) \<le>
          length (take (min (a + M - 1) (length fw - 1) + 1 - a) (drop a fw)) + 134"
    unfolding serve_range_def Let_def
    using assms big by (intro length_partial_content_le) auto
  then show "length (serve_range fw a (a + M - 1)) \<le> M + 134"
    unfolding l by simp
qed

lemma wire_fragment_request:
  assumes "length rx \<le> n"
    and "cl \<longrightarrow> httpc_connect e hst port family proto = Some (s, trc)"
    and "length text < m"
  shows "wire srv rx
           (SysRecv s0 n True # Callback d ev st # SysRecv s1 n False #
              (if cl then SysClose s2 # trc else []) @
              [SysSend s3 (take (m - 1) text) (int (length text))]) = srv text"
proof -
  have t: "take (length text) (take (m - 1) text) = text"
    using assms(3) by simp
  show ?thesis
  proof (cases cl)
    case True
    then have "httpc_connect e hst port family proto = Some (s, trc)"
      using assms(2) by simp
    from wire_connect [OF this] show ?thesis
      using True assms(1) t by simp
  next
    case False
    then show ?thesis
      using assms(1) t by simp
  qed
qed

lemma session_step:
  fixes M :: nat
  assumes "CONFIG_NRF_DFU_HTTP_MAX_FRAGMENT_SIZE cfg = int M" and "0 < M"
    and "a < length fw" and "length fw + M < 2 ^ 31"
    and "M + 134 < CONFIG_NRF_DFU_HTTP_MAX_RESPONSE_SIZE cfg"
    and "length res + length hst + 85 < CONFIG_NRF_DFU_HTTP_MAX_REQUEST_SIZE cfg"
    and "0 \<le> fd dfu" and "status dfu = DFU_CLIENT_STATUS_DOWNLOAD_INPROGRESS"
    and "callback dfu \<noteq> None" and "host dfu = Some hst" and "resource dfu = Some res"
    and "download_size dfu = int a"
    and "firmware_size dfu = - 1 \<or> firmware_size dfu = int (length fw)"
    and "frag_ret e = 0" and "done_ret e = 0"
    and "httpc_connect e (Some hst) None AF_INET IPPROTO_TCP = Some (s, trc)" and "0 \<le> s"
  shows "\<exists>dfu' tr.
     dfu_client_process cfg
       (e\<lparr>recv_peek := arrived (serve_range fw a (a + M - 1)),
          recv_flush := arrived (serve_range fw a (a + M - 1))\<rparr>) dfu = Some (dfu', tr) \<and>
     callback dfu' \<noteq> None \<and> host dfu' = Some hst \<and> resource dfu' = Some res \<and>
     firmware_size dfu' = int (length fw) \<and>
     download_size dfu' = int (min (a + M) (length fw)) \<and>
     (if a + M < length fw
      then 0 \<le> fd dfu' \<and> status dfu' = DFU_CLIENT_STATUS_DOWNLOAD_INPROGRESS \<and>
           notifications tr = [FragmentDelivered (int M)] \<and>
           wire srv (serve_range fw a (a + M - 1)) tr =
             srv (REQUEST_TEMPLATE res hst (int (a + M)) (int (a + M) + int M - 1))
      else status dfu' = DFU_CLIENT_STATUS_DOWNLOAD_COMPLETE \<and>
           notifications tr = [FragmentDelivered (int (length fw - a)), DownloadDone])"
proof -
  define F where "F = length fw"
  define lst where "lst = min (a + M - 1) (F - 1)"
  define pl where "pl = take (lst + 1 - a) (drop a fw)"
  define rx where "rx = partial_content a lst F False pl"
  define n where "n = int (length pl)"
  define p where "p = length (response_header a lst F (length pl) False)"
  define e' where "e' = e\<lparr>recv_peek := arrived rx, recv_flush := arrived rx\<rparr>"
  define bufsize where "bufsize = CONFIG_NRF_DFU_HTTP_MAX_RESPONSE_SIZE cfg"
  have srx: "serve_range fw a (a + M - 1) = rx"
    by (simp add: serve_range_def Let_def rx_def pl_def lst_def F_def)
  have len_pl: "length pl = min M (F - a)"
    unfolding pl_def lst_def F_def by (rule length_serve_range(1) [OF assms(3,2,4)])
  have aF: "a < F" "0 < F"
    using assms(3) by (auto simp: F_def)
  have rx_ne: "rx \<noteq> []"
    by (simp add: rx_def partial_content_def response_header_def)
  have rx_len: "length rx < bufsize"
    using length_serve_range(2) [OF assms(3,2,4)] assms(5) unfolding srx bufsize_def by simp
  have peek: "recv_peek e' = RecvData (partial_content a lst F False pl)"
    "recv_flush e' = RecvData rx"
    using rx_ne by (simp_all add: e'_def arrived_def rx_def)
  have env: "frag_ret e' = 0" "done_ret e' = 0"
    using assms(14,15) by (simp_all add: e'_def)
  have conn: "httpc_connect e' (Some hst) None AF_INET IPPROTO_TCP = Some (s, trc)"
    unfolding e'_def httpc_connect_answers by (rule assms(16))
  have known: "known_size dfu (int F) = int F" "\<not> size_mismatch dfu (int F)"
    using aF(2) assms(13) by (auto simp: known_size_def size_mismatch_def F_def)
  have cases_n: "(a + M < F \<and> length pl = M) \<or> (\<not> a + M < F \<and> length pl = F - a)"
    unfolding len_pl by auto
  have cond: "int (length pl) = CONFIG_NRF_DFU_HTTP_MAX_FRAGMENT_SIZE cfg \<or>
              download_size dfu + int (length pl) = known_size dfu (int F)"
    unfolding known(1) assms(1) assms(12) using cases_n aF(1) by auto
  define dfu2 where
    "dfu2 = dfu\<lparr>resp_buf := partial_content a lst F False pl,
                firmware_size := known_size dfu (int F),
                status := (if size_mismatch dfu (int F) then DFU_CLIENT_ERROR else status dfu)\<rparr>"
  have pr: "dfu_client_process cfg e' dfu =
     map_option (\<lambda>(dfu3, tr2). (dfu3, SysRecv (fd dfu) bufsize True # tr2))
       (accept_fragment cfg e' dfu2 p n)"
    using process_response [OF assms(7,8,9) peek(1) rx_len [unfolded rx_def bufsize_def] cond
        dfu2_def] known(2)
    by (simp add: p_def n_def bufsize_def)
  define dfu1 where "dfu1 = dfu2\<lparr>fragment := Some p, fragment_size := n\<rparr>"
  define resume where "resume = connection_resume (c_str (resp_buf dfu2))"
  have f1: "callback dfu1 \<noteq> None" "host dfu1 = Some hst" "resource dfu1 = Some res"
    "status dfu1 = DFU_CLIENT_STATUS_DOWNLOAD_INPROGRESS" "fd dfu1 = fd dfu"
    "download_size dfu1 = int a" "firmware_size dfu1 = int F" "fragment_size dfu1 = n"
    "callback dfu2 \<noteq> None"
    unfolding dfu1_def dfu2_def known(1) using assms(8,9,10,11,12) known(2) by simp_all
  from cases_n show ?thesis
  proof (elim disjE conjE)
    assume more: "a + M < F" and nM: "length pl = M"
    define dfuq where "dfuq = dfu1\<lparr>download_size := download_size dfu1 + n\<rparr>"
    define req where
      "req = REQUEST_TEMPLATE res hst (download_size dfuq)
               (download_size dfuq + CONFIG_NRF_DFU_HTTP_MAX_FRAGMENT_SIZE cfg - 1)"
    have q: "host dfuq = Some hst" "resource dfuq = Some res" "callback dfuq \<noteq> None"
      "status dfuq \<noteq> DFU_CLIENT_STATUS_IDLE"
      unfolding dfuq_def using f1 by simp_all
    have dq: "download_size dfuq = int (a + M)" "fd dfuq = fd dfu" "firmware_size dfuq = int F"
      "fragment_size dfuq = int M"
      unfolding dfuq_def using f1 nM by (simp_all add: n_def)
    have rc: "resume \<longrightarrow>
        httpc_connect e' (Some hst) None AF_INET IPPROTO_TCP = Some (s, trc) \<and> 0 \<le> s"
      using conn assms(17) by simp
    define dfu' where
      "dfu' = dfuq\<lparr>resp_buf := [], fd := (if resume then s else fd dfuq),
                 req_buf := take (CONFIG_NRF_DFU_HTTP_MAX_REQUEST_SIZE cfg - 1) req,
                 status := DFU_CLIENT_STATUS_DOWNLOAD_INPROGRESS\<rparr>"
    define trq where
      "trq = SysRecv (fd dfuq) bufsize False #
         (if resume then SysClose (fd dfuq) # trc else []) @
         [SysSend (if resume then s else fd dfuq)
            (take (CONFIG_NRF_DFU_HTTP_MAX_REQUEST_SIZE cfg - 1) req) (int (length req))]"
    have fr: "fragment_request cfg e' dfuq True resume = Some (send_ret e', dfu', trq)"
      unfolding dfu'_def trq_def req_def bufsize_def
      by (rule fragment_request_forward [OF q peek(2) rc])
    have req_eq: "req = REQUEST_TEMPLATE res hst (int (a + M)) (int (a + M) + int M - 1)"
      unfolding req_def dq assms(1) ..
    have bounds: "(0::int) \<le> int (a + M)" "int (a + M) < 2 ^ 31"
      "(0::int) \<le> int (a + M) + int M - 1" "int (a + M) + int M - 1 < 2 ^ 31"
    proof -
      have "a + M + M < 2 ^ 31"
        using more assms(4) unfolding F_def by linarith
      then have "int (a + M + M) < 2 ^ 31"
        by (metis of_nat_less_numeral_power_cancel_iff)
      then show "int (a + M) < 2 ^ 31" "int (a + M) + int M - 1 < 2 ^ 31"
        by simp_all
      show "(0::int) \<le> int (a + M)" "(0::int) \<le> int (a + M) + int M - 1"
        using assms(2) by simp_all
    qed
    have "length req \<le> length res + length hst + 85"
      unfolding req_eq by (rule length_REQUEST_TEMPLATE [OF bounds])
    then have req_len: "length req < CONFIG_NRF_DFU_HTTP_MAX_REQUEST_SIZE cfg"
      using assms(6) by linarith
    have ne: "download_size dfu1 + n \<noteq> firmware_size dfu1"
      unfolding f1 n_def nM using more by simp
    have neq: "download_size dfuq \<noteq> firmware_size dfuq"
      unfolding dq using more by simp
    have acc: "accept_fragment cfg e' dfu2 p n =
                 Some (dfu', Callback dfu1 DFU_CLIENT_EVT_DOWNLOAD_FRAG None # trq)"
      unfolding accept_fragment_def Let_def dfu1_def [symmetric] resume_def [symmetric]
      using f1(1,9) env(1) neq fr
      by (auto simp: dfuq_def [symmetric] dfu1_def [symmetric] split: option.splits)
    define tr where
      "tr = SysRecv (fd dfu) bufsize True # Callback dfu1 DFU_CLIENT_EVT_DOWNLOAD_FRAG None # trq"
    have proc: "dfu_client_process cfg e' dfu = Some (dfu', tr)"
      unfolding pr acc tr_def by simp
    have w: "wire srv rx tr = srv req"
      unfolding tr_def trq_def
      using rx_len rc req_len by (intro wire_fragment_request [where e = e']) auto
    have fields: "callback dfu' \<noteq> None" "host dfu' = Some hst" "resource dfu' = Some res"
      "firmware_size dfu' = int F" "download_size dfu' = int (a + M)"
      "0 \<le> fd dfu'" "status dfu' = DFU_CLIENT_STATUS_DOWNLOAD_INPROGRESS"
      unfolding dfu'_def using q dq assms(7,17) by simp_all
    have nt: "notifications tr = [FragmentDelivered (int M)]"
      unfolding tr_def trq_def
      using httpc_connect_quiet [OF assms(16)] f1(8) nM by (simp add: n_def)
    have mn: "min (a + M) F = a + M"
      using more by simp
    show ?thesis
      unfolding srx e'_def [symmetric] F_def [symmetric] mn
      using proc fields nt w more unfolding req_eq
      by (intro exI [of _ dfu'] exI [of _ tr]) simp
  next
    assume last: "\<not> a + M < F" and nL: "length pl = F - a"
    define dfuq where "dfuq = dfu1\<lparr>download_size := download_size dfu1 + n\<rparr>"
    define dfu3 where "dfu3 = dfuq\<lparr>status := DFU_CLIENT_STATUS_DOWNLOAD_COMPLETE\<rparr>"
    define dfu' where "dfu' = dfu3\<lparr>resp_buf := []\<rparr>"
    define tr where
      "tr = [SysRecv (fd dfu) bufsize True, Callback dfu1 DFU_CLIENT_EVT_DOWNLOAD_FRAG None,
             Callback dfu3 DFU_CLIENT_EVT_DOWNLOAD_DONE None, SysRecv (fd dfu) bufsize False]"
    have eq: "download_size dfuq = firmware_size dfuq"
      unfolding dfuq_def using f1(6,7) nL aF(1) by (simp add: n_def)
    have f3: "callback dfu3 \<noteq> None" "host dfu3 \<noteq> None"
      "status dfu3 \<noteq> DFU_CLIENT_STATUS_IDLE" "fd dfu3 = fd dfu"
      unfolding dfu3_def dfuq_def using f1 by simp_all
    have fl: "rxdata_flush cfg e' dfu3 = (dfu', [SysRecv (fd dfu) bufsize False])"
      unfolding dfu'_def bufsize_def using f3 peek(2) by (simp add: rxdata_flush_def Let_def)
    have acc: "accept_fragment cfg e' dfu2 p n =
                 Some (dfu', [Callback dfu1 DFU_CLIENT_EVT_DOWNLOAD_FRAG None,
                              Callback dfu3 DFU_CLIENT_EVT_DOWNLOAD_DONE None,
                              SysRecv (fd dfu) bufsize False])"
      unfolding accept_fragment_def Let_def dfu1_def [symmetric]
      using f1(1,9) env eq fl
      by (auto simp: dfuq_def [symmetric] dfu3_def [symmetric] dfu1_def [symmetric]
            split: option.splits)
    have proc: "dfu_client_process cfg e' dfu = Some (dfu', tr)"
      unfolding pr acc tr_def by simp
    have fields: "callback dfu' \<noteq> None" "host dfu' = Some hst" "resource dfu' = Some res"
      "firmware_size dfu' = int F" "download_size dfu' = int F"
      "status dfu' = DFU_CLIENT_STATUS_DOWNLOAD_COMPLETE"
      unfolding dfu'_def dfu3_def dfuq_def using f1 nL aF(1) by (simp_all add: n_def)
    have nt: "notifications tr = [FragmentDelivered (int (F - a)), DownloadDone]"
      unfolding tr_def using f1(8) nL by (simp add: n_def)
    have mn: "min (a + M) F = F"
      using last by simp
    show ?thesis
      unfolding srx e'_def [symmetric] F_def [symmetric] mn
      using proc fields nt last
      by (intro exI [of _ dfu'] exI [of _ tr]) simp
  qed
qed

lemma expected_fragments_more:
  assumes "0 < M" and "M < R"
  shows "expected_fragments R M = M # expected_fragments (R - M) M"
proof -
  obtain r where r: "R = r + M"
    using assms(2) by (metis less_imp_add_positive add.commute)
  have "(r + M) div M = Suc (r div M)" "(r + M) mod M = r mod M"
    using assms(1) div_add_self2 [of M r] by simp_all
  then show ?thesis
    unfolding r by (simp add: expected_fragments_def)
qed

lemma expected_fragments_last:
  assumes "0 < R" and "R \<le> M"
  shows "expected_fragments R M = [R]"
proof (cases "R = M")
  case True
  then show ?thesis
    using assms by (simp add: expected_fragments_def)
next
  case False
  then have "R < M"
    using assms by simp
  then show ?thesis
    using assms by (simp add: expected_fragments_def)
qed

lemma fragment_count_more:
  assumes "0 < M" and "M < R"
  shows "fragment_count R M = Suc (fragment_count (R - M) M)"
proof -
  obtain r where r: "R = r + M"
    using assms(2) by (metis less_imp_add_positive add.commute)
  have "r + M + M - 1 = (r + M - 1) + M"
    using assms(1) by simp
  then have "(r + M + M - 1) div M = Suc ((r + M - 1) div M)"
    using assms(1) div_add_self2 [of M "r + M - 1"] by simp
  then show ?thesis
    unfolding r fragment_count_def by simp
qed

lemma fragment_count_last:
  assumes "0 < R" and "R \<le> M"
  shows "fragment_count R M = 1"
proof -
  obtain r where r: "R = Suc r"
    using assms(1) by (cases R) simp_all
  have "r < M"
    using assms(2) r by simp
  then have "(r + M) div M = 1"
    using div_add_self2 [of M r] by simp
  then show ?thesis
    unfolding r fragment_count_def by simp
qed

lemma length_expected_fragments:
  assumes "0 < M"
  shows "length (expected_fragments F M) = fragment_count F M"
  using assms
proof (induction F rule: less_induct)
  case (less F)
  consider "F = 0" | "0 < F" "F \<le> M" | "M < F"
    by linarith
  then show ?case
  proof cases
    case 1
    then show ?thesis
      using less.prems by (simp add: expected_fragments_def fragment_count_def)
  next
    case 2
    then show ?thesis
      by (simp add: expected_fragments_last fragment_count_last)
  next
    case 3
    then have "length (expected_fragments (F - M) M) = fragment_count (F - M) M"
      using less.prems by (intro less.IH) simp_all
    then show ?thesis
      using 3 less.prems by (simp add: expected_fragments_more fragment_count_more)
  qed
qed

lemma map_upt_shift:
  "map f [1..<Suc (Suc n)] = f 1 # map (\<lambda>i. f (Suc i)) [1..<Suc n]"
proof -
  have "[1..<Suc (Suc n)] = 1 # [Suc 1..<Suc (Suc n)]"
    by (simp add: upt_conv_Cons)
  also have "[Suc 1..<Suc (Suc n)] = map Suc [1..<Suc n]"
    by (simp only: map_Suc_upt)
  finally show ?thesis
    by (simp add: comp_def)
qed

lemma session_run:
  fixes M :: nat
  assumes "CONFIG_NRF_DFU_HTTP_MAX_FRAGMENT_SIZE cfg = int M" and "0 < M"
    and "length fw + M < 2 ^ 31"
    and "M + 134 < CONFIG_NRF_DFU_HTTP_MAX_RESPONSE_SIZE cfg"
    and "length res + length hst + 85 < CONFIG_NRF_DFU_HTTP_MAX_REQUEST_SIZE cfg"
    and "frag_ret e = 0" and "done_ret e = 0"
    and "httpc_connect e (Some hst) None AF_INET IPPROTO_TCP = Some (s, trc)" and "0 \<le> s"
    and "\<forall>k. k * M < length fw \<longrightarrow>
           srv (REQUEST_TEMPLATE res hst (int (k * M)) (int (k * M) + int M - 1)) =
           serve_range fw (k * M) (k * M + M - 1)"
  shows "a = k * M \<Longrightarrow> a < length fw \<Longrightarrow> 0 \<le> fd dfu \<Longrightarrow>
     status dfu = DFU_CLIENT_STATUS_DOWNLOAD_INPROGRESS \<Longrightarrow> callback dfu \<noteq> None \<Longrightarrow>
     host dfu = Some hst \<Longrightarrow> resource dfu = Some res \<Longrightarrow> download_size dfu = int a \<Longrightarrow>
     firmware_size dfu = - 1 \<or> firmware_size dfu = int (length fw) \<Longrightarrow>
     \<exists>rs. session cfg srv e (fragment_count (length fw - a) M + extra)
            (serve_range fw a (a + M - 1)) dfu = Some rs \<and>
          notifications (concat (map snd rs)) =
            map (FragmentDelivered \<circ> int) (expected_fragments (length fw - a) M) @ [DownloadDone] \<and>
          map (download_size \<circ> fst) (take (fragment_count (length fw - a) M) rs) =
            map (\<lambda>i. int (min (a + i * M) (length fw))) [1..<Suc (fragment_count (length fw - a) M)]"
proof (induction "length fw - a" arbitrary: a k dfu rule: less_induct)
  case less
  define rx where "rx = serve_range fw a (a + M - 1)"
  define e' where "e' = e\<lparr>recv_peek := arrived rx, recv_flush := arrived rx\<rparr>"
  define R where "R = length fw - a"
  have R: "0 < R"
    using less.prems(2) by (simp add: R_def)
  from session_step [OF assms(1,2) less.prems(2) assms(3,4,5) less.prems(3,4,5,6,7,8,9)
      assms(6,7,8,9), of srv]
  obtain dfu' tr where proc: "dfu_client_process cfg e' dfu = Some (dfu', tr)"
    and f: "callback dfu' \<noteq> None" "host dfu' = Some hst" "resource dfu' = Some res"
      "firmware_size dfu' = int (length fw)"
      "download_size dfu' = int (min (a + M) (length fw))"
    and rest: "if a + M < length fw
         then 0 \<le> fd dfu' \<and> status dfu' = DFU_CLIENT_STATUS_DOWNLOAD_INPROGRESS \<and>
              notifications tr = [FragmentDelivered (int M)] \<and>
              wire srv rx tr =
                srv (REQUEST_TEMPLATE res hst (int (a + M)) (int (a + M) + int M - 1))
         else status dfu' = DFU_CLIENT_STATUS_DOWNLOAD_COMPLETE \<and>
              notifications tr = [FragmentDelivered (int (length fw - a)), DownloadDone]"
    unfolding rx_def [symmetric] e'_def [symmetric] by blast
  show ?case
  proof (cases "a + M < length fw")
    case True
    have m: "0 \<le> fd dfu'" "status dfu' = DFU_CLIENT_STATUS_DOWNLOAD_INPROGRESS"
      "notifications tr = [FragmentDelivered (int M)]"
      "wire srv rx tr = srv (REQUEST_TEMPLATE res hst (int (a + M)) (int (a + M) + int M - 1))"
      using rest True by simp_all
    have k: "a + M = Suc k * M"
      using less.prems(1) by simp
    have "srv (REQUEST_TEMPLATE res hst (int (Suc k * M)) (int (Suc k * M) + int M - 1)) =
          serve_range fw (Suc k * M) (Suc k * M + M - 1)"
      using assms(10) True unfolding k by blast
    then have w: "wire srv rx tr = serve_range fw (a + M) (a + M + M - 1)"
      unfolding m(4) k .
    have d: "download_size dfu' = int (a + M)"
      using f(5) True by simp
    have smaller: "length fw - (a + M) < length fw - a"
      using True assms(2) by simp
    have fs: "firmware_size dfu' = - 1 \<or> firmware_size dfu' = int (length fw)"
      using f(4) by simp
    define K where "K = fragment_count (length fw - (a + M)) M"
    from less.hyps [OF smaller k True m(1,2) f(1,2,3) d fs]
    obtain rs where rs: "session cfg srv e (K + extra) (wire srv rx tr) dfu' = Some rs"
      and n: "notifications (concat (map snd rs)) =
            map (FragmentDelivered \<circ> int) (expected_fragments (length fw - (a + M)) M) @
            [DownloadDone]"
      and p: "map (download_size \<circ> fst) (take K rs) =
            map (\<lambda>i. int (min (a + M + i * M) (length fw))) [1..<Suc K]"
      unfolding w K_def by blast
    have MR: "M < R"
      using True by (simp add: R_def)
    have RM: "length fw - (a + M) = R - M"
      by (simp add: R_def)
    have cnt: "fragment_count R M = Suc K"
      unfolding K_def RM by (rule fragment_count_more [OF assms(2) MR])
    have ex: "expected_fragments R M = M # expected_fragments (length fw - (a + M)) M"
      unfolding RM by (rule expected_fragments_more [OF assms(2) MR])
    have s: "session cfg srv e (Suc K + extra) rx dfu = Some ((dfu', tr) # rs)"
      using proc rs by (simp add: e'_def)
    have n': "notifications (concat (map snd ((dfu', tr) # rs))) =
          map (FragmentDelivered \<circ> int) (expected_fragments R M) @ [DownloadDone]"
      unfolding ex using m(3) n by simp
    have sh: "(\<lambda>i. int (min (a + M + i * M) (length fw))) =
              (\<lambda>i. int (min (a + Suc i * M) (length fw)))"
      by (simp add: add.assoc)
    have p': "map (download_size \<circ> fst) (take (Suc K) ((dfu', tr) # rs)) =
          map (\<lambda>i. int (min (a + i * M) (length fw))) [1..<Suc (Suc K)]"
      unfolding map_upt_shift using p d True unfolding sh by simp
    show ?thesis
      unfolding R_def [symmetric] rx_def [symmetric] cnt
      using s n' p' by blast
  next
    case False
    have l: "status dfu' = DFU_CLIENT_STATUS_DOWNLOAD_COMPLETE"
      "notifications tr = [FragmentDelivered (int R), DownloadDone]"
      using rest False by (simp_all add: R_def)
    have RM: "R \<le> M"
      using False by (simp add: R_def)
    have cnt: "fragment_count R M = 1"
      by (rule fragment_count_last [OF R RM])
    have ex: "expected_fragments R M = [R]"
      by (rule expected_fragments_last [OF R RM])
    have over: "session cfg srv e extra (wire srv rx tr) dfu' = Some (replicate extra (dfu', []))"
      using l(1) by (intro session_over) simp
    have s: "session cfg srv e (1 + extra) rx dfu = Some ((dfu', tr) # replicate extra (dfu', []))"
      using proc over by (simp add: e'_def)
    have q: "concat (map snd (replicate extra (dfu', []::action list))) = []"
      by (induction extra) simp_all
    have n': "notifications (concat (map snd ((dfu', tr) # replicate extra (dfu', [])))) =
          map (FragmentDelivered \<circ> int) (expected_fragments R M) @ [DownloadDone]"
      unfolding ex using l(2) q by simp
    have d: "download_size dfu' = int (length fw)"
      using f(5) False by simp
    have p': "map (download_size \<circ> fst) (take 1 ((dfu', tr) # replicate extra (dfu', []))) =
          map (\<lambda>i. int (min (a + i * M) (length fw))) [1..<Suc 1]"
      using d False by simp
    show ?thesis
      unfolding R_def [symmetric] rx_def [symmetric] cnt
      using s n' p' by blast
  qed
qed

lemma REQUEST_TEMPLATE_dec:
  "REQUEST_TEMPLATE res hst (int a) (int b) =
     ''GET '' @ res @ '' HTTP/1.1'' @ CRLF @ ''Host: '' @ hst @ CRLF @
     ''Connection: keep-alive'' @ CRLF @
     ''Range: bytes='' @ dec a @ ''-'' @ dec b @ CRLF @ CRLF"
  by (simp add: REQUEST_TEMPLATE_def print_int_def)

lemma range_server_parse:
  assumes "strstr req ''Range: bytes='' = Some i"
    and "strstr (drop (i + length ''Range: bytes='') req) ''-'' = Some j"
    and "atoi (drop (i + length ''Range: bytes='') req) = int a"
    and "atoi (drop (j + 1) (drop (i + length ''Range: bytes='') req)) = int b"
  shows "range_server fw req = serve_range fw a b"
  unfolding range_server_def Let_def assms(1) option.case assms(2) assms(3) assms(4) nat_int ..

lemma range_server_request:
  assumes "CHR ''R'' \<notin> set res" and "CHR ''R'' \<notin> set hst"
  shows "range_server fw
           (''GET '' @ res @ '' HTTP/1.1'' @ CRLF @ ''Host: '' @ hst @ CRLF @
            ''Connection: keep-alive'' @ CRLF @
            ''Range: bytes='' @ dec a @ ''-'' @ dec b @ CRLF @ CRLF) = serve_range fw a b"
proof -
  define P where "P = ''GET '' @ res @ '' HTTP/1.1'' @ CRLF @ ''Host: '' @ hst @ CRLF @
            ''Connection: keep-alive'' @ CRLF"
  define tl where "tl = dec b @ CRLF @ CRLF"
  define rest where "rest = dec a @ ''-'' @ tl"
  have req: "''GET '' @ res @ '' HTTP/1.1'' @ CRLF @ ''Host: '' @ hst @ CRLF @
            ''Connection: keep-alive'' @ CRLF @
            ''Range: bytes='' @ dec a @ ''-'' @ dec b @ CRLF @ CRLF = P @ ''Range: bytes='' @ rest"
    by (simp add: P_def rest_def tl_def)
  have noR: "CHR ''R'' \<notin> set P"
    using assms by (simp add: P_def CRLF_def)
  have "strstr (P @ ''Range: bytes='' @ rest) ''Range: bytes='' =
          (case strstr (''Range: bytes='' @ rest) ''Range: bytes='' of
             None \<Rightarrow> None | Some k \<Rightarrow> Some (length P + k))"
    using strstr_skip [OF noR, of "''Range: bytes='' @ rest" "''ange: bytes=''"] by simp
  moreover have "strstr (''Range: bytes='' @ rest) ''Range: bytes='' = Some 0"
    by (rule strstr_prefix) simp
  ultimately have s1: "strstr (P @ ''Range: bytes='' @ rest) ''Range: bytes='' = Some (length P)"
    by simp
  have d1: "drop (length P + length ''Range: bytes='') (P @ ''Range: bytes='' @ rest) = rest"
    using drop_length_append [of "length P + length ''Range: bytes=''" "P @ ''Range: bytes=''" rest]
    by simp
  have "strstr (dec a @ ''-'' @ tl) ''-'' =
          (case strstr (''-'' @ tl) ''-'' of None \<Rightarrow> None | Some k \<Rightarrow> Some (length (dec a) + k))"
    using strstr_skip [of "CHR ''-''" "dec a" "''-'' @ tl" "[]"] by simp
  moreover have "strstr (''-'' @ tl) ''-'' = Some 0"
    by (rule strstr_prefix) simp
  ultimately have s2: "strstr rest ''-'' = Some (length (dec a))"
    by (simp add: rest_def)
  have a1: "atoi rest = int a"
    unfolding rest_def using atoi_dec [of "CHR ''-''" a tl] by simp
  have d2: "drop (length (dec a) + 1) rest = tl"
    unfolding rest_def using drop_length_append [of "length (dec a) + 1" "dec a @ ''-''" tl]
    by simp
  have a2: "atoi tl = int b"
    unfolding tl_def using atoi_dec [of "CHR 0x0D" b "CHR 0x0A # CRLF"] by (simp add: CRLF_def)
  show ?thesis
    unfolding req
    by (rule range_server_parse [where j = "length (dec a)", OF s1]) (simp_all only: d1 s2 a1 d2 a2)
qed

lemma download_start:
  fixes M :: nat
  assumes "CONFIG_NRF_DFU_HTTP_MAX_FRAGMENT_SIZE cfg = int M" and "0 < M"
    and "M < 2 ^ 31"
    and "length res + length hst + 85 < CONFIG_NRF_DFU_HTTP_MAX_REQUEST_SIZE cfg"
    and "0 \<le> fd dfu" and "status dfu = DFU_CLIENT_STATUS_CONNECTED"
    and "callback dfu \<noteq> None" and "host dfu = Some hst" and "resource dfu = Some res"
    and "download_size dfu = 0"
  shows "\<exists>dfu' tr. dfu_client_download cfg e dfu = Some (send_ret e, dfu', tr) \<and>
           wire srv [] tr = srv (REQUEST_TEMPLATE res hst 0 (int M - 1)) \<and>
           notifications tr = [] \<and>
           0 \<le> fd dfu' \<and> status dfu' = DFU_CLIENT_STATUS_DOWNLOAD_INPROGRESS \<and>
           callback dfu' \<noteq> None \<and> host dfu' = Some hst \<and> resource dfu' = Some res \<and>
           download_size dfu' = 0 \<and> firmware_size dfu' = - 1"
proof -
  define req where "req = REQUEST_TEMPLATE res hst 0 (int M - 1)"
  define dfu0 where "dfu0 = dfu\<lparr>firmware_size := - 1\<rparr>"
  obtain h where h: "callback dfu0 = Some h"
    using assms(7) by (auto simp: dfu0_def)
  have f0: "host dfu0 = Some hst" "resource dfu0 = Some res" "download_size dfu0 = 0"
    "fd dfu0 = fd dfu"
    using assms(8,9,10) by (simp_all add: dfu0_def)
  have "length req \<le> length res + length hst + 85"
    unfolding req_def using assms(2,3) by (intro length_REQUEST_TEMPLATE) simp_all
  then have len: "length req < CONFIG_NRF_DFU_HTTP_MAX_REQUEST_SIZE cfg"
    using assms(4) by linarith
  then have t: "take (length req) (take (CONFIG_NRF_DFU_HTTP_MAX_REQUEST_SIZE cfg - 1) req) = req"
    by simp
  define dfu' where
    "dfu' = dfu0\<lparr>req_buf := take (CONFIG_NRF_DFU_HTTP_MAX_REQUEST_SIZE cfg - 1) req,
                status := DFU_CLIENT_STATUS_DOWNLOAD_INPROGRESS\<rparr>"
  define tr where
    "tr = [SysSend (fd dfu0) (take (CONFIG_NRF_DFU_HTTP_MAX_REQUEST_SIZE cfg - 1) req)
             (int (length req))]"
  have "fragment_request cfg e dfu0 False False = Some (send_ret e, dfu', tr)"
    unfolding fragment_request_plain [OF f0(1,2) h] f0(3) assms(1) dfu'_def tr_def req_def
    by simp
  then have d: "dfu_client_download cfg e dfu = Some (send_ret e, dfu', tr)"
    using assms(5,6) by (simp add: dfu_client_download_def dfu0_def)
  have w: "wire srv [] tr = srv req"
    unfolding tr_def using t by simp
  have nt: "notifications tr = []"
    unfolding tr_def by simp
  have fields: "0 \<le> fd dfu'" "status dfu' = DFU_CLIENT_STATUS_DOWNLOAD_INPROGRESS"
    "callback dfu' \<noteq> None" "host dfu' = Some hst" "resource dfu' = Some res"
    "download_size dfu' = 0" "firmware_size dfu' = - 1"
    unfolding dfu'_def using f0 h assms(5) by (simp_all add: dfu0_def)
  show ?thesis
    using d w nt fields unfolding req_def by blast
qed

text \<open>
  C3. A download is \<^verbatim>\<open>dfu_client_download\<close> followed by calls of
  \<^verbatim>\<open>dfu_client_process\<close>, each of which finds what the server has sent since. Let
  the firmware have \<open>F > 0\<close> bytes and the maximum fragment size be \<open>M > 0\<close>, let the
  server answer the request for the bytes from \<open>k * M\<close> to \<open>k * M + M - 1\<close> with these
  bytes of the firmware (as many as there are) and the headers that give their range,
  their number and \<open>F\<close>, and let the handler accept every event. Let the object be
  connected with \<open>download_size\<close> 0, let responses and requests fit their buffers, let
  \<open>F + M\<close> lie in the range of an \<^verbatim>\<open>int\<close>, and let a reconnect, should bytes of the
  firmware ask for one, find an address that accepts the connection. Then the download
  returns from every call, and the events the handler is given in \<open>F / M\<close> rounded up or
  more calls of \<^verbatim>\<open>dfu_client_process\<close> are: \<open>F div M\<close> fragments of \<open>M\<close> bytes, a
  fragment of \<open>F mod M\<close> bytes when that is not 0, and then one completion; these are
  \<open>F / M\<close> rounded up fragments, and after the \<open>i\<close>-th call \<open>download_size\<close> is
  the smaller of \<open>i * M\<close> and \<open>F\<close>.
\<close>

theorem download_delivers_fragments:
  fixes M :: nat
  assumes "CONFIG_NRF_DFU_HTTP_MAX_FRAGMENT_SIZE cfg = int M" and "0 < M"
    and "0 < length fw" and "length fw + M < 2 ^ 31"
    and "M + 134 < CONFIG_NRF_DFU_HTTP_MAX_RESPONSE_SIZE cfg"
    and "length res + length hst + 85 < CONFIG_NRF_DFU_HTTP_MAX_REQUEST_SIZE cfg"
    and "0 \<le> fd dfu" and "status dfu = DFU_CLIENT_STATUS_CONNECTED"
    and "callback dfu \<noteq> None" and "host dfu = Some hst" and "resource dfu = Some res"
    and "download_size dfu = 0"
    and "frag_ret e = 0" and "done_ret e = 0"
    and "getaddrinfo_ret e hst None AF_INET IPPROTO_TCP = (rc, failed @ addr # others)"
    and "0 \<le> rc" and "socket_ret e AF_INET IPPROTO_TCP = s" and "0 \<le> s"
    and "\<forall>a \<in> set failed. sa_family a = AF_INET \<longrightarrow>
           connect_ret e s (a\<lparr>sin_port := 80\<rparr>) \<noteq> 0"
    and "sa_family addr = AF_INET" and "connect_ret e s (addr\<lparr>sin_port := 80\<rparr>) = 0"
    and "\<forall>k. k * M < length fw \<longrightarrow>
           srv (''GET '' @ res @ '' HTTP/1.1'' @ CRLF @ ''Host: '' @ hst @ CRLF @
                ''Connection: keep-alive'' @ CRLF @
                ''Range: bytes='' @ dec (k * M) @ ''-'' @ dec (k * M + M - 1) @ CRLF @ CRLF) =
           serve_range fw (k * M) (k * M + M - 1)"
  shows "\<exists>rs. download_session cfg srv e (fragment_count (length fw) M + extra) dfu = Some rs \<and>
     notifications (concat (map snd rs)) =
       map (FragmentDelivered \<circ> int) (expected_fragments (length fw) M) @ [DownloadDone] \<and>
     length (expected_fragments (length fw) M) = fragment_count (length fw) M \<and>
     map (download_size \<circ> fst) (take (fragment_count (length fw) M) rs) =
       map (\<lambda>i. int (min (i * M) (length fw))) [1..<Suc (fragment_count (length fw) M)]"
proof -
  have M: "M < 2 ^ 31"
    using assms(4) by linarith
  define trc where
    "trc = [SysGetaddrinfo hst None AF_INET IPPROTO_TCP, SysSocket AF_INET IPPROTO_TCP] @
           map (\<lambda>a. SysConnect s (a\<lparr>sin_port := 80\<rparr>))
             (filter (\<lambda>a. sa_family a = AF_INET) failed) @
           [SysConnect s (addr\<lparr>sin_port := 80\<rparr>), SysFreeaddrinfo]"
  have conn: "httpc_connect e (Some hst) None AF_INET IPPROTO_TCP = Some (s, trc)"
    unfolding trc_def by (rule httpc_connect_reaches [OF assms(15,16,17,18,19,20,21)])
  have e: "int (k * M) + int M - 1 = int (k * M + M - 1)" for k
    using assms(2) by (simp add: of_nat_diff)
  have server: "\<forall>k. k * M < length fw \<longrightarrow>
           srv (REQUEST_TEMPLATE res hst (int (k * M)) (int (k * M) + int M - 1)) =
           serve_range fw (k * M) (k * M + M - 1)"
    unfolding e REQUEST_TEMPLATE_dec by (rule assms(22))
  from download_start [OF assms(1,2) M assms(6,7,8,9,10,11,12), of e srv]
  obtain dfu' tr where d: "dfu_client_download cfg e dfu = Some (send_ret e, dfu', tr)"
    and w: "wire srv [] tr = srv (REQUEST_TEMPLATE res hst 0 (int M - 1))"
    and f: "0 \<le> fd dfu'" "status dfu' = DFU_CLIENT_STATUS_DOWNLOAD_INPROGRESS"
      "callback dfu' \<noteq> None" "host dfu' = Some hst" "resource dfu' = Some res"
      "download_size dfu' = int 0"
    and fs: "firmware_size dfu' = - 1"
    by auto
  have "srv (REQUEST_TEMPLATE res hst (int (0 * M)) (int (0 * M) + int M - 1)) =
        serve_range fw (0 * M) (0 * M + M - 1)"
    using assms(3) server by (metis mult_zero_left)
  then have w': "wire srv [] tr = serve_range fw 0 (0 + M - 1)"
    unfolding w by simp
  have z: "(0::nat) = 0 * M"
    by simp
  have fs': "firmware_size dfu' = - 1 \<or> firmware_size dfu' = int (length fw)"
    using fs by simp
  from session_run [OF assms(1,2,4,5,6,13,14) conn assms(18) server z assms(3) f fs', of extra]
  obtain rs where rs: "session cfg srv e (fragment_count (length fw) M + extra)
        (wire srv [] tr) dfu' = Some rs"
    and n: "notifications (concat (map snd rs)) =
       map (FragmentDelivered \<circ> int) (expected_fragments (length fw) M) @ [DownloadDone]"
    and p: "map (download_size \<circ> fst) (take (fragment_count (length fw) M) rs) =
       map (\<lambda>i. int (min (i * M) (length fw))) [1..<Suc (fragment_count (length fw) M)]"
    unfolding w' by auto
  have "download_session cfg srv e (fragment_count (length fw) M + extra) dfu = Some rs"
    using d rs by (simp add: download_session_def)
  then show ?thesis
    using n p length_expected_fragments [OF assms(2), of "length fw"] by blast
qed

text \<open>
  C3 at a firmware of 2500 bytes and fragments of 1024: the fragments have 1024, 1024
  and 452 bytes, the completion follows, and \<open>download_size\<close> is 1024, 2048, 2500.
\<close>

theorem download_delivers_fragments_witness:
  "\<exists>rs. download_session cfg_1k (range_server firmware_2500) env_ok 3 dfu_connected = Some rs \<and>
     notifications (concat (map snd rs)) =
       [FragmentDelivered 1024, FragmentDelivered 1024, FragmentDelivered 452, DownloadDone] \<and>
     map (download_size \<circ> fst) (take 3 rs) = [1024, 2048, 2500]"
proof -
  have c: "CONFIG_NRF_DFU_HTTP_MAX_FRAGMENT_SIZE cfg_1k = int 1024" "(0::nat) < 1024"
    "0 < length firmware_2500" "length firmware_2500 + 1024 < 2 ^ 31"
    "1024 + 134 < CONFIG_NRF_DFU_HTTP_MAX_RESPONSE_SIZE cfg_1k"
    "length ''/fw.bin'' + length ''example.com'' + 85 < CONFIG_NRF_DFU_HTTP_MAX_REQUEST_SIZE cfg_1k"
    by (simp_all add: cfg_1k_def firmware_2500_def)
  have o: "0 \<le> fd dfu_connected" "status dfu_connected = DFU_CLIENT_STATUS_CONNECTED"
    "callback dfu_connected \<noteq> None" "host dfu_connected = Some ''example.com''"
    "resource dfu_connected = Some ''/fw.bin''" "download_size dfu_connected = 0"
    by (simp_all add: dfu_connected_def)
  have v: "frag_ret env_ok = 0" "done_ret env_ok = 0"
    "getaddrinfo_ret env_ok ''example.com'' None AF_INET IPPROTO_TCP = (0, [] @ server_addr # [])"
    "(0::int) \<le> 0" "socket_ret env_ok AF_INET IPPROTO_TCP = 4" "(0::int) \<le> 4"
    "\<forall>a \<in> set []. sa_family a = AF_INET \<longrightarrow> connect_ret env_ok 4 (a\<lparr>sin_port := 80\<rparr>) \<noteq> 0"
    "sa_family server_addr = AF_INET" "connect_ret env_ok 4 (server_addr\<lparr>sin_port := 80\<rparr>) = 0"
    by (simp_all add: env_ok_def server_addr_def)
  have srv: "\<forall>k. k * 1024 < length firmware_2500 \<longrightarrow>
     range_server firmware_2500
       (''GET '' @ ''/fw.bin'' @ '' HTTP/1.1'' @ CRLF @ ''Host: '' @ ''example.com'' @ CRLF @
        ''Connection: keep-alive'' @ CRLF @
        ''Range: bytes='' @ dec (k * 1024) @ ''-'' @ dec (k * 1024 + 1024 - 1) @ CRLF @ CRLF) =
     serve_range firmware_2500 (k * 1024) (k * 1024 + 1024 - 1)"
    by (intro allI impI range_server_request) simp_all
  have l: "length firmware_2500 = 2500"
    by (simp add: firmware_2500_def)
  have cnt: "fragment_count (length firmware_2500) 1024 + 0 = 3"
    "fragment_count (length firmware_2500) 1024 = 3"
    unfolding l by (simp_all add: fragment_count_def)
  have ex: "expected_fragments (length firmware_2500) 1024 = [1024, 1024, 452]"
    unfolding l by (simp add: expected_fragments_def numeral_2_eq_2)
  have ps: "map (\<lambda>i. int (min (i * 1024) (length firmware_2500))) [1..<Suc 3] = [1024, 2048, 2500]"
    unfolding l by (simp add: upt_conv_Cons)
  from download_delivers_fragments [OF c o v srv, of 0]
  show ?thesis
    unfolding cnt ex ps by auto
qed

end
